theory Spec2Isabelle
  imports Complex_Main
begin

section \<open>Host-language values\<close>

text \<open>
  Texts are sequences of code units, modelled as \<^typ>\<open>string\<close>. The model covers texts
  in the ASCII range: there one \<^typ>\<open>char\<close> is one UTF-16 code unit, \<open>length\<close> is
  the \<open>.length\<close> of the source, the whitespace of the source is the six characters of
  \<open>is_space\<close> and Unicode normalisation changes nothing. Outside ASCII the source knows
  more whitespace (U+00A0, U+2028, U+FEFF and others) and normalisation rewrites
  characters; the properties that depend on either are stated for texts that satisfy
  \<open>ascii_text\<close>.

  A \<open>number\<close> of the source is a \<open>jsnum\<close>: a finite value (a rational, as every
  double is), the two infinities, or NaN. The sign of zero is not modelled.
\<close>

datatype jsnum = Fin rat | PInf | NInf | NaN

text \<open>Truthiness of a number: \<open>0\<close> and \<open>NaN\<close> are falsy.\<close>

fun truthy :: "jsnum \<Rightarrow> bool" where
  "truthy (Fin r) = (r \<noteq> 0)"
| "truthy NaN = False"
| "truthy PInf = True"
| "truthy NInf = True"

subsection \<open>Double arithmetic\<close>

text \<open>
  The arithmetic of the source is that of IEEE 754 doubles: the exact result of an
  operation is rounded to the nearest double, to the even one of two nearest; beyond the
  largest double it is an infinity, and below half the smallest it is zero.

  \<open>ilog2 x\<close> is the exponent of a positive \<open>x\<close>: \<open>2 ^ ilog2 x \<le> x < 2 ^ (ilog2 x + 1)\<close>.
\<close>

function log2_up :: "rat \<Rightarrow> int" where
  "log2_up x = (if 2 \<le> x then log2_up (x / 2) + 1 else 0)"
  by pat_completeness auto
termination
proof (relation "measure (\<lambda>x. nat \<lfloor>x\<rfloor>)")
  show "wf (measure (\<lambda>x::rat. nat \<lfloor>x\<rfloor>))" by simp
next
  fix x :: rat
  assume "2 \<le> x"
  then have "x / 2 \<le> x - 1" by simp
  then have "\<lfloor>x / 2\<rfloor> \<le> \<lfloor>x - 1\<rfloor>" by (rule floor_mono)
  moreover have "\<lfloor>x - 1\<rfloor> = \<lfloor>x\<rfloor> - 1" by simp
  moreover have "1 \<le> \<lfloor>x\<rfloor>" using \<open>2 \<le> x\<close> by (simp add: le_floor_iff)
  ultimately show "(x / 2, x) \<in> measure (\<lambda>x. nat \<lfloor>x\<rfloor>)" by simp
qed

function log2_down :: "rat \<Rightarrow> int" where
  "log2_down x = (if 0 < x \<and> x < 1 then log2_down (2 * x) - 1 else 0)"
  by pat_completeness auto
termination
proof (relation "measure (\<lambda>x. nat \<lceil>1 / x\<rceil>)")
  show "wf (measure (\<lambda>x::rat. nat \<lceil>1 / x\<rceil>))" by simp
next
  fix x :: rat
  assume a: "0 < x \<and> x < 1"
  define y where "y = 1 / x"
  have y1: "1 < y" using a by (simp add: y_def)
  have "1 / (2 * x) = y / 2" by (simp add: y_def)
  moreover have "\<lceil>y / 2\<rceil> < \<lceil>y\<rceil>"
  proof (cases "y \<le> 2")
    case True
    then have "y / 2 \<le> 1" by simp
    then have "\<lceil>y / 2\<rceil> \<le> 1" by linarith
    moreover have "1 < \<lceil>y\<rceil>" using y1 by linarith
    ultimately show ?thesis by linarith
  next
    case False
    then have "y / 2 \<le> y - 1" by simp
    then have "\<lceil>y / 2\<rceil> \<le> \<lceil>y - 1\<rceil>" by (rule ceiling_mono)
    then show ?thesis by simp
  qed
  moreover have "0 < \<lceil>y\<rceil>" using y1 by (simp add: less_ceiling_iff)
  ultimately show "(2 * x, x) \<in> measure (\<lambda>x. nat \<lceil>1 / x\<rceil>)"
    by (simp add: y_def mult.commute)
qed

declare log2_up.simps [simp del] log2_down.simps [simp del]

definition ilog2 :: "rat \<Rightarrow> int" where
  "ilog2 x = (if 1 \<le> x then log2_up x else log2_down x)"

definition pow2 :: "int \<Rightarrow> rat" where
  "pow2 e = (if 0 \<le> e then 2 ^ nat e else 1 / 2 ^ nat (- e))"

text \<open>Rounding to the nearest integer, a tie to the even one.\<close>

definition round_half_even :: "rat \<Rightarrow> int" where
  "round_half_even y =
     (let n = \<lfloor>y\<rfloor>; f = y - of_int n in
      if f < 1 / 2 then n else if 1 / 2 < f then n + 1 else if even n then n else n + 1)"

text \<open>
  The double nearest to a rational: a multiple of the spacing \<open>q\<close> of the doubles around
  it, which is \<open>2 ^ -1074\<close> in the subnormal range and \<open>2 ^ (e - 52)\<close> for exponent \<open>e\<close>.
\<close>

definition to_double :: "rat \<Rightarrow> jsnum" where
  "to_double x =
     (if x = 0 then Fin 0
      else
        (let v = \<bar>x\<bar>;
             q = (if v < pow2 (- 1022) then pow2 (- 1074) else pow2 (ilog2 v - 52));
             y = of_int (round_half_even (v / q)) * q
         in if pow2 1024 \<le> y then (if 0 < x then PInf else NInf)
            else Fin (if 0 < x then y else - y)))"

text \<open>
  The square root is correctly rounded too: the integer square root of the operand scaled
  to 105 bits, rounded by comparing with the square of the midpoint.
\<close>

function isqrt_between :: "int \<Rightarrow> int \<Rightarrow> int \<Rightarrow> int" where
  "isqrt_between lo hi n =
     (if hi \<le> lo + 1 then lo
      else (let mid = (lo + hi) div 2 in
            if mid * mid \<le> n then isqrt_between mid hi n else isqrt_between lo mid n))"
  by pat_completeness auto
termination
  by (relation "measure (\<lambda>(lo, hi, n). nat (hi - lo))") auto

declare isqrt_between.simps [simp del]

definition isqrt :: "int \<Rightarrow> int" where
  "isqrt n = isqrt_between 0 (n + 1) n"

definition sqrt_double :: "rat \<Rightarrow> jsnum" where
  "sqrt_double a =
     (let q = pow2 (ilog2 a div 2 - 52);
          t = a / (q * q);
          n0 = isqrt \<lfloor>t\<rfloor>;
          h = (of_int n0 + 1 / 2) * (of_int n0 + 1 / 2);
          n = (if t < h then n0 else if h < t then n0 + 1 else if even n0 then n0 else n0 + 1)
      in Fin (of_int n * q))"

text \<open>Multiplication, addition, division and square root with the special values.\<close>

fun fmul :: "jsnum \<Rightarrow> jsnum \<Rightarrow> jsnum" where
  "fmul (Fin a) (Fin b) = to_double (a * b)"
| "fmul NaN y = NaN"
| "fmul x NaN = NaN"
| "fmul (Fin a) PInf = (if a = 0 then NaN else if 0 < a then PInf else NInf)"
| "fmul (Fin a) NInf = (if a = 0 then NaN else if 0 < a then NInf else PInf)"
| "fmul PInf (Fin b) = (if b = 0 then NaN else if 0 < b then PInf else NInf)"
| "fmul NInf (Fin b) = (if b = 0 then NaN else if 0 < b then NInf else PInf)"
| "fmul PInf PInf = PInf"
| "fmul PInf NInf = NInf"
| "fmul NInf PInf = NInf"
| "fmul NInf NInf = PInf"

fun fadd :: "jsnum \<Rightarrow> jsnum \<Rightarrow> jsnum" where
  "fadd (Fin a) (Fin b) = to_double (a + b)"
| "fadd NaN y = NaN"
| "fadd x NaN = NaN"
| "fadd PInf NInf = NaN"
| "fadd NInf PInf = NaN"
| "fadd PInf y = PInf"
| "fadd NInf y = NInf"
| "fadd x PInf = PInf"
| "fadd x NInf = NInf"

fun fdiv :: "jsnum \<Rightarrow> jsnum \<Rightarrow> jsnum" where
  "fdiv (Fin a) (Fin b) =
     (if b = 0 then (if a = 0 then NaN else if 0 < a then PInf else NInf)
      else to_double (a / b))"
| "fdiv NaN y = NaN"
| "fdiv x NaN = NaN"
| "fdiv (Fin a) PInf = Fin 0"
| "fdiv (Fin a) NInf = Fin 0"
| "fdiv PInf (Fin b) = (if 0 \<le> b then PInf else NInf)"
| "fdiv NInf (Fin b) = (if 0 \<le> b then NInf else PInf)"
| "fdiv PInf y = NaN"
| "fdiv NInf y = NaN"

fun fsqrt :: "jsnum \<Rightarrow> jsnum" where
  "fsqrt (Fin a) = (if a < 0 then NaN else if a = 0 then Fin 0 else sqrt_double a)"
| "fsqrt PInf = PInf"
| "fsqrt NInf = NaN"
| "fsqrt NaN = NaN"

definition isNaN :: "jsnum \<Rightarrow> bool" where
  "isNaN x \<longleftrightarrow> x = NaN"

text \<open>Decimal rendering of an integer-valued number inside a template literal.\<close>

fun show_nat :: "nat \<Rightarrow> string" where
  "show_nat n =
     (if n < 10 then [''0123456789'' ! n]
      else show_nat (n div 10) @ [''0123456789'' ! (n mod 10)])"

declare show_nat.simps [simp del]

definition show_int :: "int \<Rightarrow> string" where
  "show_int i = (if i < 0 then CHR ''-'' # show_nat (nat (- i)) else show_nat (nat i))"

subsection \<open>Strings\<close>

definition newline :: char where
  "newline = CHR 0x0A"

text \<open>
  The class \<open>\s\<close> of the source's regular expressions, and what \<open>trim\<close> strips, in
  the ASCII range.
\<close>

definition is_space :: "char \<Rightarrow> bool" where
  "is_space c \<longleftrightarrow>
     c = CHR 0x09 \<or> c = CHR 0x0A \<or> c = CHR 0x0B \<or> c = CHR 0x0C \<or> c = CHR 0x0D \<or> c = CHR 0x20"

text \<open>Line terminators, where \<open>^\<close> and \<open>$\<close> of a multi-line expression match.\<close>

definition is_line_term :: "char \<Rightarrow> bool" where
  "is_line_term c \<longleftrightarrow> c = CHR 0x0A \<or> c = CHR 0x0D"

definition is_digit :: "char \<Rightarrow> bool" where
  "is_digit c \<longleftrightarrow> c \<in> set ''0123456789''"

definition is_upper :: "char \<Rightarrow> bool" where
  "is_upper c \<longleftrightarrow> c \<in> set ''ABCDEFGHIJKLMNOPQRSTUVWXYZ''"

definition ascii_text :: "string \<Rightarrow> bool" where
  "ascii_text s \<longleftrightarrow> list_all (\<lambda>c. (of_char c :: nat) < 128) s"

definition trim :: "string \<Rightarrow> string" where
  "trim s = rev (dropWhile is_space (rev (dropWhile is_space s)))"

text \<open>
  \<open>String.prototype.slice\<close>: a negative index counts from the end, both ends are
  clamped to the text.
\<close>

definition slice_index :: "string \<Rightarrow> int \<Rightarrow> int" where
  "slice_index s i =
     (let len = int (length s) in if i < 0 then max (len + i) 0 else min i len)"

definition slice :: "string \<Rightarrow> int \<Rightarrow> int \<Rightarrow> string" where
  "slice s start endpos =
     (let from = slice_index s start; to = slice_index s endpos
      in take (nat (to - from)) (drop (nat from) s))"

text \<open>
  \<open>String.prototype.lastIndexOf(search, position)\<close>: the largest index, at most the
  position clamped to the text, where the search string occurs; \<open>-1\<close> when there is none.
\<close>

definition occurs_at :: "string \<Rightarrow> string \<Rightarrow> nat \<Rightarrow> bool" where
  "occurs_at s pat k \<longleftrightarrow> k + length pat \<le> length s \<and> take (length pat) (drop k s) = pat"

fun lastIndexFrom :: "string \<Rightarrow> string \<Rightarrow> nat \<Rightarrow> int" where
  "lastIndexFrom s pat 0 = (if occurs_at s pat 0 then 0 else - 1)"
| "lastIndexFrom s pat (Suc k) =
     (if occurs_at s pat (Suc k) then int (Suc k) else lastIndexFrom s pat k)"

definition lastIndexOf :: "string \<Rightarrow> string \<Rightarrow> int \<Rightarrow> int" where
  "lastIndexOf s pat position =
     lastIndexFrom s pat (nat (min (max position 0) (int (length s))))"

text \<open>\<open>Array.prototype.join\<close>.\<close>

fun join :: "string \<Rightarrow> string list \<Rightarrow> string" where
  "join sep [] = []"
| "join sep [x] = x"
| "join sep (x # y # ys) = x @ sep @ join sep (y # ys)"

section \<open>Database rows\<close>

record Document =
  doc_id :: string
  doc_user_id :: string
  doc_name :: string
  doc_content :: string
  doc_chunk_count :: "nat option"

record DocumentChunk =
  chunk_document_id :: string
  chunk_content :: string
  chunk_embedding :: "jsnum list"
  chunk_index :: int
  chunk_similarity :: "jsnum option"

section \<open>Normalizer\<close>

text \<open>
  \<open>text.normalize('NFKC')\<close>: on ASCII text, which is what the model covers, Unicode
  normalisation is the identity.
\<close>

definition normalizeNFKC :: "string \<Rightarrow> string" where
  "normalizeNFKC text = text"

text \<open>\<open>text.replace(/\s+/g, ' ')\<close>: every maximal run of whitespace becomes one space.\<close>

function collapse_ws :: "string \<Rightarrow> string" where
  "collapse_ws [] = []"
| "collapse_ws (c # cs) =
     (if is_space c then CHR '' '' # collapse_ws (dropWhile is_space cs)
      else c # collapse_ws cs)"
  by pat_completeness auto
termination
  by (relation "measure length") (auto simp: length_dropWhile_le le_imp_less_Suc)

text \<open>
  \<open>text.replace(/\n\s*\n\s*\n+/g, '\n\n')\<close>. A match starts at a newline whose following
  whitespace run holds two more newlines at least; the greedy quantifiers make it end at
  the last newline of that run.
\<close>

definition after_last_newline :: "string \<Rightarrow> string" where
  "after_last_newline run = rev (takeWhile (\<lambda>c. c \<noteq> newline) (rev run))"

function collapse_newlines :: "string \<Rightarrow> string" where
  "collapse_newlines [] = []"
| "collapse_newlines (c # cs) =
     (let run = takeWhile is_space cs in
      if c = newline \<and> 2 \<le> length (filter (\<lambda>d. d = newline) run)
      then [newline, newline]
             @ collapse_newlines (drop (length run - length (after_last_newline run)) cs)
      else c # collapse_newlines cs)"
  by pat_completeness auto
termination
  by (relation "measure length") (auto simp: le_imp_less_Suc)

text \<open>
  \<open>text.replace(/Page \d+/gi, '')\<close>: the word in any letter case, one space, then the
  longest run of digits (one at least).
\<close>

definition to_upper :: "char \<Rightarrow> char" where
  "to_upper c =
     (if c \<in> set ''abcdefghijklmnopqrstuvwxyz'' then char_of (of_char c - (32::nat)) else c)"

definition page_match :: "string \<Rightarrow> bool" where
  "page_match s \<longleftrightarrow>
     map to_upper (take 5 s) = ''PAGE '' \<and>
     (case drop 5 s of [] \<Rightarrow> False | d # _ \<Rightarrow> is_digit d)"

function strip_page :: "string \<Rightarrow> string" where
  "strip_page [] = []"
| "strip_page (c # cs) =
     (if page_match (c # cs) then strip_page (dropWhile is_digit (drop 5 (c # cs)))
      else c # strip_page cs)"
  by pat_completeness auto
termination
proof (relation "measure length")
  show "wf (measure length)" by simp
next
  fix c :: char and cs :: string
  assume "page_match (c # cs)"
  have "length (dropWhile is_digit (drop 5 (c # cs))) \<le> length (drop 5 (c # cs))"
    by (rule length_dropWhile_le)
  then show "(dropWhile is_digit (drop 5 (c # cs)), c # cs) \<in> measure length"
    by simp
next
  fix c :: char and cs :: string
  show "(cs, c # cs) \<in> measure length" by simp
qed

text \<open>
  \<open>text.replace(/\d+\s*\/\s*\d+/g, '')\<close>: digits, optional whitespace, a slash, optional
  whitespace, digits. \<open>counter_rest\<close> is the text after a match that starts at the head
  of its argument.
\<close>

definition counter_rest :: "string \<Rightarrow> string option" where
  "counter_rest s =
     (case s of
        [] \<Rightarrow> None
      | c # _ \<Rightarrow>
          if is_digit c then
            (case dropWhile is_space (dropWhile is_digit s) of
               [] \<Rightarrow> None
             | sl # r3 \<Rightarrow>
                 if sl = CHR ''/'' then
                   (case dropWhile is_space r3 of
                      [] \<Rightarrow> None
                    | d # r5 \<Rightarrow> if is_digit d then Some (dropWhile is_digit r5) else None)
                 else None)
          else None)"

lemma counter_rest_shorter:
  assumes "counter_rest s = Some r"
  shows "length r < length s"
proof -
  from assms obtain c s' where s: "s = c # s'" and dc: "is_digit c"
    by (auto simp: counter_rest_def split: list.splits if_splits)
  from assms s dc obtain sl r3 where
    r2: "dropWhile is_space (dropWhile is_digit s) = sl # r3"
    by (auto simp: counter_rest_def split: list.splits if_splits)
  from assms s dc r2 obtain d r5 where
    r4: "dropWhile is_space r3 = d # r5" and r: "r = dropWhile is_digit r5"
    by (auto simp: counter_rest_def split: list.splits if_splits)
  have "length r \<le> length r5"
    unfolding r by (rule length_dropWhile_le)
  also have "length r5 < length (dropWhile is_space r3)"
    by (simp add: r4)
  also have "\<dots> \<le> length r3"
    by (rule length_dropWhile_le)
  also have "length r3 < length (dropWhile is_space (dropWhile is_digit s))"
    by (simp add: r2)
  also have "\<dots> \<le> length (dropWhile is_digit s)"
    by (rule length_dropWhile_le)
  also have "\<dots> \<le> length s"
    by (rule length_dropWhile_le)
  finally show ?thesis .
qed

function strip_counter :: "string \<Rightarrow> string" where
  "strip_counter [] = []"
| "strip_counter (c # cs) =
     (case counter_rest (c # cs) of
        Some r \<Rightarrow> strip_counter r
      | None \<Rightarrow> c # strip_counter cs)"
  by pat_completeness auto
termination
  by (relation "measure length") (auto dest: counter_rest_shorter)

text \<open>
  \<open>text.replace(/^[A-Z\s]{3,50}$/gm, '')\<close>. At the start of a line the class is matched
  greedily, fifty characters at most, and the match is cut back until it ends at the end
  of a line; \<open>caps_match\<close> is the length of the match at the head of its argument.
\<close>

definition caps_class :: "char \<Rightarrow> bool" where
  "caps_class c \<longleftrightarrow> is_upper c \<or> is_space c"

definition eol_at :: "string \<Rightarrow> nat \<Rightarrow> bool" where
  "eol_at s n \<longleftrightarrow> (case drop n s of [] \<Rightarrow> True | d # _ \<Rightarrow> is_line_term d)"

fun caps_try :: "string \<Rightarrow> nat \<Rightarrow> nat option" where
  "caps_try s 0 = None"
| "caps_try s (Suc n) =
     (if Suc n < 3 then None
      else if eol_at s (Suc n) then Some (Suc n)
      else caps_try s n)"

definition caps_match :: "string \<Rightarrow> nat option" where
  "caps_match s = caps_try s (length (takeWhile caps_class (take 50 s)))"

lemma caps_try_bounds:
  "caps_try s n = Some m \<Longrightarrow> 3 \<le> m \<and> m \<le> n"
  by (induction n) (auto split: if_splits)

function strip_caps_from :: "bool \<Rightarrow> string \<Rightarrow> string" where
  "strip_caps_from bol [] = []"
| "strip_caps_from bol (c # cs) =
     (case (if bol then caps_match (c # cs) else None) of
        Some n \<Rightarrow>
          strip_caps_from (is_line_term ((c # cs) ! (n - 1))) (drop n (c # cs))
      | None \<Rightarrow> c # strip_caps_from (is_line_term c) cs)"
  by pat_completeness auto
termination
  by (relation "measure (\<lambda>(bol, s). length s)")
     (auto split: if_splits dest!: caps_try_bounds simp: caps_match_def)

definition strip_caps :: "string \<Rightarrow> string" where
  "strip_caps s = strip_caps_from True s"

definition normalizeText :: "string \<Rightarrow> string" where
  "normalizeText text =
     (if text = [] then []
      else trim (strip_caps (strip_counter (strip_page (collapse_newlines
             (collapse_ws (normalizeNFKC text)))))))"

text \<open>A text from which the three artifact-stripping replacements remove nothing.\<close>

definition artifact_free :: "string \<Rightarrow> bool" where
  "artifact_free s \<longleftrightarrow> strip_page s = s \<and> strip_counter s = s \<and> strip_caps s = s"

text \<open>A text whose whitespace is single spaces, none beside another.\<close>

fun single_spaced :: "string \<Rightarrow> bool" where
  "single_spaced [] = True"
| "single_spaced [c] = (is_space c \<longrightarrow> c = CHR '' '')"
| "single_spaced (c # d # cs) =
     ((is_space c \<longrightarrow> c = CHR '' '' \<and> \<not> is_space d) \<and> single_spaced (d # cs))"

text \<open>
  A text in which no page token and no page counter starts at any index, and which does
  not begin with a line of capitals. (In a text without line terminators a line of capitals
  can only start at index 0.)
\<close>

definition no_artifact :: "string \<Rightarrow> bool" where
  "no_artifact s \<longleftrightarrow>
     list_all (\<lambda>k. \<not> page_match (drop k s) \<and> counter_rest (drop k s) = None) [0..<length s] \<and>
     caps_match s = None"

section \<open>Chunker\<close>

text \<open>
  The end of the chunk that starts at \<open>start\<close>: the paragraph break or the sentence end
  found backwards from \<open>start + maxChunkSize\<close>, when it lies beyond half the size.
\<close>

definition chunk_end :: "string \<Rightarrow> int \<Rightarrow> int \<Rightarrow> int" where
  "chunk_end text maxChunkSize start =
     (let endpos = start + maxChunkSize in
      if endpos < int (length text) then
        (let sentenceEnd = lastIndexOf text ''.'' endpos;
             paragraphEnd = lastIndexOf text [newline, newline] endpos
         in if rat_of_int paragraphEnd > rat_of_int start + rat_of_int maxChunkSize * (1 / 2)
            then paragraphEnd
            else if rat_of_int sentenceEnd > rat_of_int start + rat_of_int maxChunkSize * (1 / 2)
            then sentenceEnd + 1
            else endpos)
      else endpos)"

text \<open>
  The loop of \<open>chunkText\<close>, with the cursor and the chunks pushed so far. It need not
  terminate: \<open>None\<close> is the loop that never returns.
\<close>

partial_function (option) chunk_loop ::
  "string \<Rightarrow> int \<Rightarrow> int \<Rightarrow> int \<Rightarrow> string list \<Rightarrow> string list option" where
  "chunk_loop text maxChunkSize overlap start chunks =
     (if start < int (length text) then
        (let endpos = chunk_end text maxChunkSize start;
             chunk = trim (slice text start endpos);
             chunks' = (if length chunk > 0 then chunks @ [chunk] else chunks);
             start' = endpos - overlap
         in if start' \<ge> int (length text) then Some chunks'
            else chunk_loop text maxChunkSize overlap start' chunks')
      else Some chunks)"

declare chunk_loop.simps [code]

definition chunkText :: "string \<Rightarrow> int \<Rightarrow> int \<Rightarrow> string list option" where
  "chunkText text maxChunkSize overlap = chunk_loop text maxChunkSize overlap 0 []"

text \<open>A text without sentence ends and without whitespace: no boundary to cut at.\<close>

definition plain_text :: "string \<Rightarrow> bool" where
  "plain_text s \<longleftrightarrow> list_all (\<lambda>c. c \<noteq> CHR ''.'' \<and> \<not> is_space c) s"




section \<open>Document processing\<close>

text \<open>
  The extractors are library calls: each returns the text of the file (\<open>Inr\<close>) or throws
  with a message (\<open>Inl\<close>).
\<close>

record extractors =
  extractPdfText :: "string \<Rightarrow> string + string"
  extractDocxText :: "string \<Rightarrow> string + string"
  extractTxtText :: "string \<Rightarrow> string + string"

record process_metadata =
  totalChunks :: nat
  totalTokens :: nat
  totalCharacters :: nat
  meta_filename :: string

datatype process_result =
  ProcessFailed string nat
  | ProcessOk "string list" process_metadata

definition estimateTokens :: "string \<Rightarrow> nat" where
  "estimateTokens s = (length s + 3) div 4"

definition to_lower :: "char \<Rightarrow> char" where
  "to_lower c =
     (if c \<in> set ''ABCDEFGHIJKLMNOPQRSTUVWXYZ'' then char_of (of_char c + (32::nat)) else c)"

text \<open>\<open>filename.split('.').pop()\<close>: what follows the last dot, the whole name without one.\<close>

definition file_extension :: "string \<Rightarrow> string" where
  "file_extension filename = rev (takeWhile (\<lambda>c. c \<noteq> CHR ''.'') (rev filename))"

definition detectFileType :: "string \<Rightarrow> string + string" where
  "detectFileType filename =
     (let ext = file_extension (map to_lower filename) in
      if ext = ''pdf'' then Inr ''pdf''
      else if ext = ''docx'' then Inr ''docx''
      else if ext = ''txt'' \<or> ext = ''text'' then Inr ''txt''
      else Inl (''Unsupported file type: '' @ ext))"

definition extract_text :: "extractors \<Rightarrow> string \<Rightarrow> string \<Rightarrow> string + string" where
  "extract_text ex fileType fileContent =
     (if fileType = ''pdf'' then extractPdfText ex fileContent
      else if fileType = ''docx'' then extractDocxText ex fileContent
      else extractTxtText ex fileContent)"

definition empty_raw_message :: string where
  "empty_raw_message = ''Document appears to be empty or contains no extractable text''"

definition empty_cleaned_message :: string where
  "empty_cleaned_message = ''Document contains no meaningful text after processing''"

text \<open>\<open>processDocument\<close>; \<open>None\<close> when the chunker does not return.\<close>

definition processDocument :: "extractors \<Rightarrow> string \<Rightarrow> string \<Rightarrow> process_result option" where
  "processDocument ex fileContent filename =
     (case detectFileType filename of
        Inl err \<Rightarrow> Some (ProcessFailed err 400)
      | Inr fileType \<Rightarrow>
          if length fileContent > 10 * 1024 * 1024
          then Some (ProcessFailed ''File size exceeds 10MB limit'' 400)
          else
            (case extract_text ex fileType fileContent of
               Inl msg \<Rightarrow> Some (ProcessFailed (''Failed to extract text: '' @ msg) 500)
             | Inr rawText \<Rightarrow>
                 if rawText = [] \<or> length (trim rawText) < 10
                 then Some (ProcessFailed empty_raw_message 400)
                 else
                   (let cleanedText = normalizeText rawText in
                    if cleanedText = [] \<or> length (trim cleanedText) < 10
                    then Some (ProcessFailed empty_cleaned_message 400)
                    else
                      (case chunkText cleanedText 1000 200 of
                         None \<Rightarrow> None
                       | Some chunks \<Rightarrow>
                           Some (ProcessOk chunks
                             \<lparr>totalChunks = length chunks,
                              totalTokens = sum_list (map estimateTokens chunks),
                              totalCharacters = length cleanedText,
                              meta_filename = filename\<rparr>)))))"

text \<open>The two failures for a document without usable text.\<close>

definition empty_document_error :: "process_result \<Rightarrow> bool" where
  "empty_document_error r \<longleftrightarrow>
     r = ProcessFailed empty_raw_message 400 \<or> r = ProcessFailed empty_cleaned_message 400"

text \<open>
  An instance of the extractors: a text file is decoded as it is (ASCII), the two other
  libraries reject the buffer.
\<close>

definition plain_extractors :: extractors where
  "plain_extractors =
     \<lparr>extractPdfText = (\<lambda>b. Inl ''Failed to extract PDF text: Unknown error''),
      extractDocxText = (\<lambda>b. Inl ''Failed to extract DOCX text: Unknown error''),
      extractTxtText = (\<lambda>b. Inr b)\<rparr>"

section \<open>Document upload\<close>

text \<open>
  The store holds the two tables the upload writes. A request to the store resolves with
  its data or with an error; which one is decided outside the program, so the outcome of
  every request is part of the environment, as are the embedding service, the document
  limit and the rendering of a file size with two decimals (\<open>toFixed\<close>). The identifier
  of a new document row is given by the database.
\<close>

record store =
  documents :: "Document list"
  document_chunks :: "DocumentChunk list"

record upload_file =
  file_name :: string
  file_content :: string

record upload_request =
  session_user_id :: "string option"
  upload :: "upload_file option"

record upload_env =
  document_limit :: "string \<Rightarrow> bool \<times> string option"
  size_in_megabytes :: "nat \<Rightarrow> string"
  text_extractors :: extractors
  generateEmbedding :: "string \<Rightarrow> string + jsnum list"
  new_document_id :: string
  insert_with_count_error :: "string option"
  insert_without_count_error :: "string option"
  chunk_batch_error :: "nat \<Rightarrow> string option"
  delete_document_fails :: bool
  delete_chunks_fails :: bool

datatype upload_response =
  UploadFailed nat string string
  | UploadOk string string nat

text \<open>\<open>getFileType\<close> of the upload route.\<close>

definition getFileType :: "string \<Rightarrow> string" where
  "getFileType filename =
     (let extension = map to_lower (file_extension filename) in
      if extension = ''pdf'' then ''pdf''
      else if extension = ''txt'' then ''txt''
      else if extension = ''docx'' \<or> extension = ''doc'' then ''docx''
      else ''unknown'')"

text \<open>\<open>String.prototype.includes\<close>.\<close>

definition includes_str :: "string \<Rightarrow> string \<Rightarrow> bool" where
  "includes_str s pat \<longleftrightarrow> list_ex (occurs_at s pat) [0..<Suc (length s)]"

text \<open>
  The embeddings of one batch are requested together and awaited together; the first
  failure in the order of the chunks is taken as the one that rejects the batch.
\<close>

fun embed_batch :: "(string \<Rightarrow> string + jsnum list) \<Rightarrow> string list \<Rightarrow> string + jsnum list list" where
  "embed_batch g [] = Inr []"
| "embed_batch g (c # cs) =
     (case g c of
        Inl err \<Rightarrow> Inl err
      | Inr v \<Rightarrow> (case embed_batch g cs of Inl err \<Rightarrow> Inl err | Inr vs \<Rightarrow> Inr (v # vs)))"

function embed_chunks ::
  "(string \<Rightarrow> string + jsnum list) \<Rightarrow> string list \<Rightarrow> nat \<Rightarrow> jsnum list list
     \<Rightarrow> string + jsnum list list" where
  "embed_chunks g chunks i embeddings =
     (if i < length chunks then
        (case embed_batch g (take 10 (drop i chunks)) of
           Inl err \<Rightarrow> Inl err
         | Inr batchEmbeddings \<Rightarrow> embed_chunks g chunks (i + 10) (embeddings @ batchEmbeddings))
      else Inr embeddings)"
  by pat_completeness auto
termination
  by (relation "measure (\<lambda>(g, chunks, i, embeddings). length chunks - i)") auto

declare embed_chunks.simps [simp del]

text \<open>The validation before the chunk rows are written: the first wrong dimension throws.\<close>

fun check_dimensions :: "nat \<Rightarrow> jsnum list list \<Rightarrow> string option" where
  "check_dimensions i [] = None"
| "check_dimensions i (e # es) =
     (if length e \<noteq> 1536
      then Some (''Embedding at index '' @ show_nat i @ '' has wrong dimension: expected 1536, got ''
                   @ show_nat (length e))
      else check_dimensions (Suc i) es)"

definition count_mismatch :: "nat \<Rightarrow> nat \<Rightarrow> string" where
  "count_mismatch expected got =
     ''Embedding count mismatch: expected '' @ show_nat expected @ '', got '' @ show_nat got"

fun chunk_rows :: "string \<Rightarrow> nat \<Rightarrow> (string \<times> jsnum list) list \<Rightarrow> DocumentChunk list" where
  "chunk_rows document_id index [] = []"
| "chunk_rows document_id index ((chunk, e) # rest) =
     \<lparr>chunk_document_id = document_id, chunk_content = chunk, chunk_embedding = e,
      chunk_index = int index, chunk_similarity = None\<rparr>
       # chunk_rows document_id (Suc index) rest"

text \<open>
  The chunk rows are inserted fifty at a time; the loop stops at the first batch the store
  refuses and reports its index. A refused batch writes nothing.
\<close>

function insert_batches ::
  "upload_env \<Rightarrow> DocumentChunk list \<Rightarrow> nat \<Rightarrow> store \<Rightarrow> (nat \<times> string) option \<times> store" where
  "insert_batches env chunkInserts i st =
     (if i < length chunkInserts then
        (let batch = take 50 (drop i chunkInserts) in
         case chunk_batch_error env i of
           Some err \<Rightarrow> (Some (i, err), st)
         | None \<Rightarrow>
             insert_batches env chunkInserts (i + 50)
               (st\<lparr>document_chunks := document_chunks st @ batch\<rparr>))
      else (None, st))"
  by pat_completeness auto
termination
  by (relation "measure (\<lambda>(env, chunkInserts, i, st). length chunkInserts - i)") auto

declare insert_batches.simps [simp del]

text \<open>
  The clean-up after a refused batch: two delete requests, whose results are not looked
  at. (The model does not rely on the cascade of the schema.)
\<close>

definition delete_document :: "upload_env \<Rightarrow> string \<Rightarrow> store \<Rightarrow> store" where
  "delete_document env document_id st =
     (if delete_document_fails env then st
      else st\<lparr>documents := filter (\<lambda>d. doc_id d \<noteq> document_id) (documents st)\<rparr>)"

definition delete_chunks :: "upload_env \<Rightarrow> string \<Rightarrow> store \<Rightarrow> store" where
  "delete_chunks env document_id st =
     (if delete_chunks_fails env then st
      else st\<lparr>document_chunks :=
                filter (\<lambda>c. chunk_document_id c \<noteq> document_id) (document_chunks st)\<rparr>)"

text \<open>
  The insertion of the document row: with the chunk count first, and without it when the
  error names that column. The result is the row the store returns, if any.
\<close>

definition insert_document ::
  "upload_env \<Rightarrow> string \<Rightarrow> string \<Rightarrow> string list \<Rightarrow> store \<Rightarrow> Document option \<times> store" where
  "insert_document env user_id name chunks st =
     (let insertData =
            \<lparr>doc_id = new_document_id env, doc_user_id = user_id, doc_name = name,
             doc_content = join [newline, newline] chunks,
             doc_chunk_count = Some (length chunks)\<rparr>
      in case insert_with_count_error env of
           None \<Rightarrow> (Some insertData, st\<lparr>documents := documents st @ [insertData]\<rparr>)
         | Some errorWithCount \<Rightarrow>
             if includes_str errorWithCount ''chunk_count'' then
               (case insert_without_count_error env of
                  None \<Rightarrow>
                    (Some (insertData\<lparr>doc_chunk_count := None\<rparr>),
                     st\<lparr>documents := documents st @ [insertData\<lparr>doc_chunk_count := None\<rparr>]\<rparr>)
                | Some errorWithoutCount \<Rightarrow> (None, st))
             else (None, st))"

text \<open>The workflow of the upload once the document has been processed into chunks.\<close>

definition store_document ::
  "upload_env \<Rightarrow> string \<Rightarrow> string \<Rightarrow> string list \<Rightarrow> store \<Rightarrow> upload_response \<times> store" where
  "store_document env user_id name chunks st =
     (case embed_chunks (generateEmbedding env) chunks 0 [] of
        Inl err \<Rightarrow> (UploadFailed 500 ''UPLOAD_ERROR'' err, st)
      | Inr embeddings \<Rightarrow>
          if length embeddings \<noteq> length chunks
          then (UploadFailed 500 ''UPLOAD_ERROR''
                  (count_mismatch (length chunks) (length embeddings)), st)
          else
            (case insert_document env user_id name chunks st of
               (None, st1) \<Rightarrow>
                 (UploadFailed 500 ''DATABASE_ERROR'' ''Failed to create document in database'', st1)
             | (Some document, st1) \<Rightarrow>
                 if length embeddings \<noteq> length chunks
                 then (UploadFailed 500 ''UPLOAD_ERROR''
                         (count_mismatch (length chunks) (length embeddings)), st1)
                 else
                   (case check_dimensions 0 embeddings of
                      Some err \<Rightarrow> (UploadFailed 500 ''UPLOAD_ERROR'' err, st1)
                    | None \<Rightarrow>
                        (case insert_batches env
                                (chunk_rows (doc_id document) 0 (zip chunks embeddings)) 0 st1 of
                           (Some (batchIndex, batchError), st2) \<Rightarrow>
                             (UploadFailed 500 ''CHUNKS_ERROR'' ''Failed to store document chunks'',
                              delete_chunks env (doc_id document)
                                (delete_document env (doc_id document) st2))
                         | (None, st2) \<Rightarrow>
                             (UploadOk (doc_id document) (doc_name document) (length chunks),
                              st2)))))"

text \<open>The upload route; \<open>None\<close> when processing the document does not return.\<close>

definition POST :: "upload_env \<Rightarrow> upload_request \<Rightarrow> store \<Rightarrow> (upload_response \<times> store) option" where
  "POST env request st =
     (case session_user_id request of
        None \<Rightarrow> Some (UploadFailed 401 [] ''Authentication required'', st)
      | Some user_id \<Rightarrow>
          (case document_limit env user_id of
             (False, message) \<Rightarrow>
               Some (UploadFailed 403 []
                       (case message of Some m \<Rightarrow> (if m = [] then ''Document limit reached'' else m)
                                      | None \<Rightarrow> ''Document limit reached''), st)
           | (True, message) \<Rightarrow>
               (case upload request of
                  None \<Rightarrow>
                    Some (UploadFailed 400 ''NO_FILE''
                            ''No file provided. Please select a file to upload.'', st)
                | Some file \<Rightarrow>
                    if getFileType (file_name file) \<notin> set [''pdf'', ''txt'', ''docx'']
                    then Some (UploadFailed 400 ''INVALID_FILE_TYPE''
                                 (''File type '' @ [CHR 0x22] @ getFileType (file_name file)
                                    @ [CHR 0x22]
                                    @ '' is not supported. Please upload PDF, TXT, or DOCX files.''),
                               st)
                    else if length (file_content file) > 10 * 1024 * 1024
                    then Some (UploadFailed 400 ''FILE_TOO_LARGE''
                                 (''File size ('' @ size_in_megabytes env (length (file_content file))
                                    @ ''MB) exceeds the 10MB limit. Please choose a smaller file.''),
                               st)
                    else
                      (case processDocument (text_extractors env) (file_content file)
                              (file_name file) of
                         None \<Rightarrow> None
                       | Some (ProcessFailed err statusCode) \<Rightarrow>
                           Some (UploadFailed 500 ''PROCESSING_FAILED''
                                   (if err = [] then ''Document processing failed'' else err), st)
                       | Some (ProcessOk chunks metadata) \<Rightarrow>
                           Some (store_document env user_id (file_name file) chunks st)))))"

text \<open>
  An instance to run the upload on: a signed-in user below the limit uploads a short text
  file (of 0.00 megabytes); the embedding service answers with vectors of \<open>n\<close> zeros, the
  store accepts the document row, and refuses chunk batches and deletions as the two last
  arguments say.
\<close>

definition demo_env :: "nat \<Rightarrow> (nat \<Rightarrow> string option) \<Rightarrow> bool \<Rightarrow> upload_env" where
  "demo_env n batch_error deletes_fail =
     \<lparr>document_limit = (\<lambda>u. (True, None)),
      size_in_megabytes = (\<lambda>n. ''0.00''),
      text_extractors = plain_extractors,
      generateEmbedding = (\<lambda>c. Inr (replicate n (Fin 0))),
      new_document_id = ''doc-1'',
      insert_with_count_error = None,
      insert_without_count_error = None,
      chunk_batch_error = batch_error,
      delete_document_fails = deletes_fail,
      delete_chunks_fails = deletes_fail\<rparr>"

definition demo_request :: upload_request where
  "demo_request =
     \<lparr>session_user_id = Some ''user-1'',
      upload = Some \<lparr>file_name = ''notes.txt'', file_content = ''Hello world. This is a test.''\<rparr>\<rparr>"

definition empty_store :: store where
  "empty_store = \<lparr>documents = [], document_chunks = []\<rparr>"

text \<open>A store that holds an earlier document with its chunk.\<close>

definition prior_store :: store where
  "prior_store =
     \<lparr>documents =
        [\<lparr>doc_id = ''doc-0'', doc_user_id = ''user-1'', doc_name = ''old.txt'',
          doc_content = ''An earlier document.'', doc_chunk_count = Some 1\<rparr>],
      document_chunks =
        [\<lparr>chunk_document_id = ''doc-0'', chunk_content = ''An earlier document.'',
          chunk_embedding = [], chunk_index = 0, chunk_similarity = None\<rparr>]\<rparr>"

text \<open>
  Two more instances: the upload of a text file of \<open>n\<close> letters a, and a store that
  accepts the first batch of chunk rows and refuses the second, the one that starts at
  row 50.
\<close>

definition letters_request :: "nat \<Rightarrow> upload_request" where
  "letters_request n =
     \<lparr>session_user_id = Some ''user-1'',
      upload = Some \<lparr>file_name = ''notes.txt'', file_content = replicate n CHR ''a''\<rparr>\<rparr>"

definition refusing_env :: upload_env where
  "refusing_env = demo_env 1536 (\<lambda>i. if i = 50 then Some ''timeout'' else None) False"

section \<open>Retriever\<close>

text \<open>
  The dot product of the fallback: \<open>queryEmbedding.reduce((sum, val, i) => sum + val *
  (chunk.embedding[i] || 0), 0)\<close>. Beyond the end of the chunk's embedding, and where its
  entry is falsy, the factor is 0.
\<close>

fun dot_product :: "jsnum \<Rightarrow> jsnum list \<Rightarrow> jsnum list \<Rightarrow> jsnum" where
  "dot_product acc [] embedding = acc"
| "dot_product acc (val # rest) [] = dot_product (fadd acc (fmul val (Fin 0))) rest []"
| "dot_product acc (val # rest) (x # embedding) =
     dot_product (fadd acc (fmul val (if truthy x then x else Fin 0))) rest embedding"

text \<open>\<open>Math.sqrt(v.reduce((sum, val) => sum + val * val, 0))\<close>.\<close>

fun sum_squares :: "jsnum \<Rightarrow> jsnum list \<Rightarrow> jsnum" where
  "sum_squares acc [] = acc"
| "sum_squares acc (val # rest) = sum_squares (fadd acc (fmul val val)) rest"

definition magnitude :: "jsnum list \<Rightarrow> jsnum" where
  "magnitude v = fsqrt (sum_squares (Fin 0) v)"

text \<open>The similarity the fallback gives to a chunk with the given embedding.\<close>

definition cosine_similarity :: "jsnum list \<Rightarrow> jsnum list \<Rightarrow> jsnum" where
  "cosine_similarity queryEmbedding embedding =
     (if length embedding = 0 then Fin 0
      else
        (let dotProduct = dot_product (Fin 0) queryEmbedding embedding;
             queryMagnitude = magnitude queryEmbedding;
             chunkMagnitude = magnitude embedding;
             similarity = fdiv dotProduct (fmul queryMagnitude chunkMagnitude)
         in if isNaN similarity then Fin 0 else similarity))"

definition with_similarity :: "jsnum list \<Rightarrow> DocumentChunk \<Rightarrow> DocumentChunk" where
  "with_similarity queryEmbedding chunk =
     chunk\<lparr>chunk_similarity := Some (cosine_similarity queryEmbedding (chunk_embedding chunk))\<rparr>"

text \<open>
  The sort by \<open>(b.similarity || 0) - (a.similarity || 0)\<close>: descending, and stable, so
  that chunks of equal similarity keep their order. A difference that is NaN (of two equal
  infinities) counts as zero.
\<close>

definition sort_key_of :: "DocumentChunk \<Rightarrow> jsnum" where
  "sort_key_of chunk =
     (case chunk_similarity chunk of
        None \<Rightarrow> Fin 0
      | Some x \<Rightarrow> if truthy x then x else Fin 0)"

fun jsnum_less :: "jsnum \<Rightarrow> jsnum \<Rightarrow> bool" where
  "jsnum_less NaN y = False"
| "jsnum_less x NaN = False"
| "jsnum_less (Fin a) (Fin b) = (a < b)"
| "jsnum_less x PInf = (x \<noteq> PInf)"
| "jsnum_less NInf y = (y \<noteq> NInf)"
| "jsnum_less x y = False"

fun insert_by_similarity :: "DocumentChunk \<Rightarrow> DocumentChunk list \<Rightarrow> DocumentChunk list" where
  "insert_by_similarity a [] = [a]"
| "insert_by_similarity a (b # bs) =
     (if jsnum_less (sort_key_of a) (sort_key_of b) then b # insert_by_similarity a bs
      else a # b # bs)"

definition sort_by_similarity :: "DocumentChunk list \<Rightarrow> DocumentChunk list" where
  "sort_by_similarity chunks = foldr insert_by_similarity chunks []"

text \<open>
  The store as the retriever meets it. The similarity search of the database answers with
  data, with an error, or the call throws; the query for the chunks of the document answers
  with the rows or with an error. A promise of the source either resolves with a value or
  rejects with an error.
\<close>

datatype rpc_outcome =
  RpcResult "DocumentChunk list option" bool
  | RpcThrows

record retrieval_env =
  client_throws :: bool
  match_document_chunks :: "jsnum list \<Rightarrow> string \<Rightarrow> nat \<Rightarrow> rpc_outcome"
  fetch_fails :: bool

datatype retrieval_result =
  Rejected string
  | Resolved "DocumentChunk list"

text \<open>The search answered, without error and with data: its rows are returned as they are.\<close>

fun rpc_data :: "rpc_outcome \<Rightarrow> DocumentChunk list option" where
  "rpc_data (RpcResult (Some data) False) = Some data"
| "rpc_data (RpcResult data err) = None"
| "rpc_data RpcThrows = None"

text \<open>The chunks of a document in the order of their index, \<open>n\<close> at most.\<close>

definition select_chunks :: "store \<Rightarrow> string \<Rightarrow> nat \<Rightarrow> DocumentChunk list" where
  "select_chunks st documentId n =
     take n (sort_key chunk_index
       (filter (\<lambda>c. chunk_document_id c = documentId) (document_chunks st)))"

definition findRelevantChunks ::
  "retrieval_env \<Rightarrow> store \<Rightarrow> jsnum list \<Rightarrow> string \<Rightarrow> nat \<Rightarrow> retrieval_result" where
  "findRelevantChunks env st queryEmbedding documentId limit =
     (if client_throws env then Resolved []
      else
        (case rpc_data (match_document_chunks env queryEmbedding documentId limit) of
           Some data \<Rightarrow> Resolved data
         | None \<Rightarrow>
             if fetch_fails env then Resolved []
             else
               (let allChunks = select_chunks st documentId (limit * 2) in
                if length allChunks = 0 then Resolved []
                else Resolved (take limit
                       (sort_by_similarity (map (with_similarity queryEmbedding) allChunks))))))"

text \<open>A number that is zero or NaN.\<close>

definition zeroish :: "jsnum \<Rightarrow> bool" where
  "zeroish x \<longleftrightarrow> x = Fin 0 \<or> x = NaN"

text \<open>
  Two instances of the store as the retriever meets it, both without the similarity search
  of the database: one where the query for the chunks fails too, one where it answers; and
  a store with two chunks of one document.
\<close>

definition unreachable_env :: retrieval_env where
  "unreachable_env =
     \<lparr>client_throws = False, match_document_chunks = (\<lambda>q d n. RpcThrows), fetch_fails = True\<rparr>"

definition fallback_env :: retrieval_env where
  "fallback_env =
     \<lparr>client_throws = False, match_document_chunks = (\<lambda>q d n. RpcThrows), fetch_fails = False\<rparr>"

definition demo_chunks :: store where
  "demo_chunks =
     \<lparr>documents = [],
      document_chunks =
        [\<lparr>chunk_document_id = ''doc-1'', chunk_content = ''Alpha'',
          chunk_embedding = [Fin 0, Fin 1], chunk_index = 0, chunk_similarity = None\<rparr>,
         \<lparr>chunk_document_id = ''doc-1'', chunk_content = ''Beta'',
          chunk_embedding = [Fin 1, Fin 0], chunk_index = 1, chunk_similarity = None\<rparr>]\<rparr>"

section \<open>Context builder\<close>

text \<open>
  \<open>buildContext\<close>. The rendering \<open>(similarity * 100).toFixed(1)\<close> of the host
  language is the parameter \<open>pct\<close>.
\<close>

text \<open>
  The similarity part of a label: present when the chunk has a similarity and it is truthy
  (neither \<open>undefined\<close> nor \<open>0\<close> nor \<open>NaN\<close>).
\<close>

definition similarity_label :: "(jsnum \<Rightarrow> string) \<Rightarrow> jsnum option \<Rightarrow> string" where
  "similarity_label pct similarity =
     (case similarity of
        None \<Rightarrow> []
      | Some x \<Rightarrow> if truthy x then '' (similarity: '' @ pct x @ ''%)'' else [])"

definition chunk_block :: "(jsnum \<Rightarrow> string) \<Rightarrow> DocumentChunk \<Rightarrow> string" where
  "chunk_block pct chunk =
     ''[Chunk '' @ show_int (chunk_index chunk + 1)
       @ similarity_label pct (chunk_similarity chunk) @ '']'' @ [newline]
       @ chunk_content chunk"

definition context_separator :: string where
  "context_separator = [newline, newline] @ ''---'' @ [newline, newline]"

definition buildContext :: "(jsnum \<Rightarrow> string) \<Rightarrow> DocumentChunk list \<Rightarrow> string" where
  "buildContext pct chunks =
     (if length chunks = 0 then ''No relevant context found.''
      else join context_separator (map (chunk_block pct) chunks))"

section \<open>Properties of the chunker\<close>

lemma lastIndexFrom_absent:
  "(\<And>k. \<not> occurs_at s pat k) \<Longrightarrow> lastIndexFrom s pat n = - 1"
  by (induction n) auto

lemma lastIndexFrom_range:
  "lastIndexFrom s pat n = - 1 \<or> (0 \<le> lastIndexFrom s pat n \<and> lastIndexFrom s pat n \<le> int n)"
  by (induction n) auto

lemma lastIndexOf_le:
  "lastIndexOf s pat p \<le> max p 0"
  using lastIndexFrom_range [of s pat "nat (min (max p 0) (int (length s)))"]
  by (auto simp: lastIndexOf_def)

text \<open>Every chunk ends beyond half the size past its start.\<close>

lemma chunk_end_lower:
  assumes "0 < m"
  shows "rat_of_int start + rat_of_int m * (1 / 2) < rat_of_int (chunk_end t m start)"
proof -
  have "rat_of_int start + rat_of_int m * (1 / 2) < rat_of_int (start + m)"
    using assms by simp
  then show ?thesis
    by (auto simp: chunk_end_def Let_def)
qed

lemma chunk_step_advances:
  assumes "0 < m" "2 * ov \<le> m"
  shows "start < chunk_end t m start - ov"
proof -
  have "rat_of_int ov \<le> rat_of_int m * (1 / 2)"
  proof -
    have "rat_of_int (2 * ov) \<le> rat_of_int m"
      using assms(2) by (simp only: of_int_le_iff)
    then show ?thesis by simp
  qed
  with chunk_end_lower [OF assms(1), of start t]
  have "rat_of_int start < rat_of_int (chunk_end t m start - ov)" by simp
  then show ?thesis by (simp only: of_int_less_iff)
qed

lemma chunk_loop_returns:
  assumes "0 < m" "2 * ov \<le> m"
  shows "\<exists>cs. chunk_loop t m ov start chunks = Some cs"
proof (induction "nat (int (length t) - start)" arbitrary: start chunks rule: less_induct)
  case less
  show ?case
  proof (cases "start < int (length t)")
    case False
    then show ?thesis by (subst chunk_loop.simps) simp
  next
    case True
    define e where "e = chunk_end t m start"
    define cs' where
      "cs' = (if length (trim (slice t start e)) > 0 then chunks @ [trim (slice t start e)]
              else chunks)"
    have adv: "start < e - ov"
      unfolding e_def by (rule chunk_step_advances [OF assms])
    show ?thesis
    proof (cases "e - ov \<ge> int (length t)")
      case True
      with \<open>start < int (length t)\<close> show ?thesis
        by (subst chunk_loop.simps) (simp add: Let_def e_def)
    next
      case False
      have "nat (int (length t) - (e - ov)) < nat (int (length t) - start)"
        using adv False by linarith
      from less [OF this, of cs'] obtain r where "chunk_loop t m ov (e - ov) cs' = Some r"
        by blast
      with False \<open>start < int (length t)\<close> show ?thesis
        unfolding e_def cs'_def
        by (subst chunk_loop.simps) (auto simp add: Let_def)
    qed
  qed
qed

text \<open>
  With an overlap as large as the size the cursor does not move: on the one-character text,
  size 1 and overlap 1, every iteration starts at 0 again.
\<close>

lemma chunk_loop_stuck:
  assumes "chunk_loop t m ov start chunks = Some y"
  shows "\<not> (t = ''a'' \<and> m = 1 \<and> ov = 1 \<and> start = 0)"
proof (rule chunk_loop.raw_induct
    [where P = "\<lambda>t m ov start chunks y. \<not> (t = ''a'' \<and> m = 1 \<and> ov = 1 \<and> start = 0)",
      OF _ assms])
  fix f :: "string \<Rightarrow> int \<Rightarrow> int \<Rightarrow> int \<Rightarrow> string list \<Rightarrow> string list option"
    and t m ov start chunks y
  assume IH: "\<And>t m ov start chunks y. f t m ov start chunks = Some y \<Longrightarrow>
      \<not> (t = ''a'' \<and> m = 1 \<and> ov = 1 \<and> start = (0::int))"
  assume step: "(if start < int (length t) then
        (let endpos = chunk_end t m start;
             chunk = trim (slice t start endpos);
             chunks' = (if length chunk > 0 then chunks @ [chunk] else chunks);
             start' = endpos - ov
         in if start' \<ge> int (length t) then Some chunks'
            else f t m ov start' chunks')
      else Some chunks) = Some y"
  show "\<not> (t = ''a'' \<and> m = 1 \<and> ov = 1 \<and> start = 0)"
  proof
    assume a: "t = ''a'' \<and> m = 1 \<and> ov = 1 \<and> start = 0"
    with step have "\<exists>cs. f ''a'' 1 1 0 cs = Some y"
      by (auto simp: chunk_end_def Let_def split: if_splits)
    with IH show False by blast
  qed
qed

text \<open>
  C5 (as amended). The chunker returns on every text whenever the size is positive and the
  overlap is at most half the size, as with the size 1000 and overlap 200 of its only
  caller: the cursor then moves forward in every iteration until it reaches the length of
  the text. The loop has no guard for a cursor that does not advance.
\<close>

theorem chunkText_terminates:
  "0 < maxChunkSize \<Longrightarrow> 2 * overlap \<le> maxChunkSize \<Longrightarrow>
   \<exists>chunks. chunkText text maxChunkSize overlap = Some chunks"
  unfolding chunkText_def by (rule chunk_loop_returns)

theorem chunkText_terminates_witness:
  "(0::int) < 1000 \<and> 2 * 200 \<le> (1000::int) \<and>
   (\<exists>chunks. chunkText ''Hello world. This is a test.'' 1000 200 = Some chunks)"
  using chunkText_terminates [of 1000 200 "''Hello world. This is a test.''"] by simp

text \<open>
  C5 as stated fails: with overlap equal to the size, \<open>chunkText('a', 1, 1)\<close> never
  returns.
\<close>

theorem chunkText_diverges_counterexample:
  "chunkText ''a'' 1 1 = None"
  using chunk_loop_stuck [of "''a''" 1 1 0 "[]"]
  by (cases "chunkText ''a'' 1 1") (auto simp: chunkText_def)

subsection \<open>Texts without boundaries\<close>

lemma plain_text_set: "plain_text s \<Longrightarrow> c \<in> set s \<Longrightarrow> c \<noteq> CHR ''.'' \<and> \<not> is_space c"
  by (simp add: plain_text_def list_all_iff)

lemma occurs_at_in_set:
  assumes "occurs_at s (c # pat) k"
  shows "c \<in> set s"
proof -
  from assms have "take (Suc (length pat)) (drop k s) = c # pat"
    by (simp add: occurs_at_def)
  then have "c \<in> set (take (Suc (length pat)) (drop k s))" by simp
  then show ?thesis by (meson in_set_dropD in_set_takeD)
qed

lemma plain_no_period: "plain_text s \<Longrightarrow> lastIndexOf s ''.'' p = - 1"
  unfolding lastIndexOf_def
  by (rule lastIndexFrom_absent) (auto dest!: occurs_at_in_set plain_text_set)

lemma plain_no_paragraph: "plain_text s \<Longrightarrow> lastIndexOf s [newline, newline] p = - 1"
  unfolding lastIndexOf_def
  by (rule lastIndexFrom_absent) (auto dest!: occurs_at_in_set plain_text_set simp: is_space_def newline_def)

lemma chunk_end_plain:
  assumes "plain_text s" "0 \<le> start" "0 < m"
  shows "chunk_end s m start = start + m"
  using assms by (simp add: chunk_end_def Let_def plain_no_period plain_no_paragraph)

lemma dropWhile_none:
  "(\<And>c. c \<in> set s \<Longrightarrow> \<not> P c) \<Longrightarrow> dropWhile P s = s"
  by (cases s) auto

lemma trim_no_space:
  assumes "\<And>c. c \<in> set s \<Longrightarrow> \<not> is_space c"
  shows "trim s = s"
proof -
  have "dropWhile is_space s = s"
    using assms by (rule dropWhile_none)
  moreover have "dropWhile is_space (rev s) = rev s"
    using assms by (intro dropWhile_none) simp
  ultimately show ?thesis by (simp add: trim_def)
qed

lemma slice_nat:
  "slice s (int a) (int b) = take (min b (length s) - min a (length s)) (drop (min a (length s)) s)"
proof -
  have "slice_index s (int a) = int (min a (length s))"
    by (simp add: slice_index_def Let_def min_def)
  moreover have "slice_index s (int b) = int (min b (length s))"
    by (simp add: slice_index_def Let_def min_def)
  moreover have "nat (int (min b (length s)) - int (min a (length s))) = min b (length s) - min a (length s)"
    by linarith
  ultimately show ?thesis
    by (simp add: slice_def Let_def)
qed

lemma slice_nonneg:
  assumes "0 \<le> a" "0 \<le> b"
  shows "slice s a b =
    take (min (nat b) (length s) - min (nat a) (length s)) (drop (min (nat a) (length s)) s)"
  using slice_nat [of s "nat a" "nat b"] assms by simp

lemma trim_slice_plain:
  assumes "plain_text s"
  shows "trim (slice s a b) = slice s a b"
proof (rule trim_no_space)
  fix c assume "c \<in> set (slice s a b)"
  then have "c \<in> set s"
    unfolding slice_def Let_def by (meson in_set_dropD in_set_takeD)
  with assms show "\<not> is_space c" by (auto dest: plain_text_set)
qed

lemma chunk_loop_plain_step:
  assumes "plain_text s" "n < length s"
  shows "chunk_loop s 1000 200 (int n) chunks =
     (if length s \<le> n + 800 then Some (chunks @ [take 1000 (drop n s)])
      else chunk_loop s 1000 200 (int (n + 800)) (chunks @ [take 1000 (drop n s)]))"
proof -
  have ce: "chunk_end s 1000 (int n) = int (n + 1000)"
    using assms by (simp add: chunk_end_plain)
  have sl: "slice s (int n) (int (n + 1000)) = take 1000 (drop n s)"
  proof -
    have "take (min (n + 1000) (length s) - n) (drop n s) = take 1000 (drop n s)"
      by (cases "n + 1000 \<le> length s") (simp_all add: min_def)
    moreover have "min n (length s) = n"
      using assms(2) by simp
    ultimately show ?thesis
      by (simp only: slice_nat)
  qed
  have tr: "trim (take 1000 (drop n s)) = take 1000 (drop n s)"
    using trim_slice_plain [OF assms(1), of "int n" "int (n + 1000)"] by (simp only: sl)
  have ne: "0 < length (take 1000 (drop n s))"
    using assms(2) by simp
  have st: "int (n + 1000) - 200 = int (n + 800)"
    by simp
  have cmp: "int (length s) \<le> int (n + 800) \<longleftrightarrow> length s \<le> n + 800"
    by linarith
  have lt: "int n < int (length s)"
    using assms(2) by simp
  show ?thesis
    by (subst chunk_loop.simps) (simp only: lt ce sl tr ne st cmp Let_def if_True)
qed

lemma chunkText_plain_2500:
  assumes "length s = 2500" "plain_text s"
  shows "chunkText s 1000 200 =
    Some [take 1000 s, take 1000 (drop 800 s), drop 1600 s, drop 2400 s]"
proof -
  have 1: "chunk_loop s 1000 200 (int 0) [] = chunk_loop s 1000 200 (int 800) [take 1000 s]"
    using assms by (subst chunk_loop_plain_step) auto
  have 2: "chunk_loop s 1000 200 (int 800) [take 1000 s] =
     chunk_loop s 1000 200 (int 1600) [take 1000 s, take 1000 (drop 800 s)]"
    using assms by (subst chunk_loop_plain_step) auto
  have 3: "chunk_loop s 1000 200 (int 1600) [take 1000 s, take 1000 (drop 800 s)] =
     chunk_loop s 1000 200 (int 2400) [take 1000 s, take 1000 (drop 800 s), drop 1600 s]"
    using assms by (subst chunk_loop_plain_step) auto
  have 4: "chunk_loop s 1000 200 (int 2400) [take 1000 s, take 1000 (drop 800 s), drop 1600 s] =
     Some [take 1000 s, take 1000 (drop 800 s), drop 1600 s, drop 2400 s]"
    using assms by (subst chunk_loop_plain_step) auto
  have "chunk_loop s 1000 200 0 [] = chunk_loop s 1000 200 (int 0) []" by simp
  then show ?thesis
    unfolding chunkText_def by (simp only: 1 2 3 4)
qed

subsection \<open>The windows of the chunker\<close>

lemma chunk_end_upper: "chunk_end t m start \<le> max (start + m) 0 + 1"
proof -
  have "lastIndexOf t [newline, newline] (start + m) \<le> max (start + m) 0"
    by (rule lastIndexOf_le)
  moreover have "lastIndexOf t ''.'' (start + m) \<le> max (start + m) 0"
    by (rule lastIndexOf_le)
  ultimately show ?thesis
    by (auto simp: chunk_end_def Let_def)
qed

lemma chunk_end_past_text:
  "int (length t) \<le> start + m \<Longrightarrow> chunk_end t m start = start + m"
  by (simp add: chunk_end_def)

text \<open>
  The windows of the loop with size 1000 and overlap 200: each starts 200 characters
  before the end of the one before it, is more than 500 characters wide, and the last
  one reaches the end of the text.
\<close>

lemma chunk_loop_windows:
  assumes "0 \<le> start" "start < int (length t)"
  shows "\<exists>ws. chunk_loop t 1000 200 start acc =
           Some (acc @ filter (\<lambda>c. c \<noteq> []) (map (\<lambda>(a, b). trim (slice t a b)) ws)) \<and>
         ws \<noteq> [] \<and> fst (hd ws) = start \<and>
         successively (\<lambda>(a, b) (a', b'). a' = b - 200) ws \<and>
         list_all (\<lambda>(a, b). 0 \<le> a \<and> a < int (length t) \<and> a + 500 < b \<and> b \<le> a + 1001 \<and>
                        (int (length t) \<le> a + 1000 \<longrightarrow> b = a + 1000)) ws \<and>
         int (length t) + 200 \<le> snd (last ws)"
  using assms
proof (induction "nat (int (length t) - start)" arbitrary: start acc rule: less_induct)
  case less
  define e where "e = chunk_end t 1000 start"
  define c where "c = trim (slice t start e)"
  define acc' where "acc' = (if length c > 0 then acc @ [c] else acc)"
  have adv: "start < e - 200"
    unfolding e_def by (rule chunk_step_advances) simp_all
  have lo: "start + 500 < e"
  proof -
    have "rat_of_int start + rat_of_int 1000 * (1 / 2) < rat_of_int e"
      unfolding e_def by (rule chunk_end_lower) simp
    then have "rat_of_int (start + 500) < rat_of_int e" by simp
    then show ?thesis by (simp only: of_int_less_iff)
  qed
  have up: "e \<le> start + 1001"
    using chunk_end_upper [of t 1000 start] less.prems by (simp add: e_def)
  have past: "int (length t) \<le> start + 1000 \<longrightarrow> e = start + 1000"
    unfolding e_def by (simp add: chunk_end_past_text)
  have acc': "acc' = acc @ filter (\<lambda>c. c \<noteq> []) [c]"
    by (simp add: acc'_def)
  show ?case
  proof (cases "e - 200 \<ge> int (length t)")
    case True
    have "chunk_loop t 1000 200 start acc = Some acc'"
      using True less.prems
      by (subst chunk_loop.simps) (simp add: Let_def e_def [symmetric] c_def [symmetric] acc'_def)
    then show ?thesis
      using True less.prems lo up past
      by (intro exI [of _ "[(start, e)]"]) (simp add: acc' c_def)
  next
    case False
    have step: "chunk_loop t 1000 200 start acc = chunk_loop t 1000 200 (e - 200) acc'"
      using False less.prems
      by (subst chunk_loop.simps) (simp add: Let_def e_def [symmetric] c_def [symmetric] acc'_def)
    have m: "nat (int (length t) - (e - 200)) < nat (int (length t) - start)"
      using adv False by linarith
    have p: "0 \<le> e - 200" "e - 200 < int (length t)"
      using adv less.prems False by linarith+
    from less.hyps [OF m p, of acc'] obtain ws where ws:
      "chunk_loop t 1000 200 (e - 200) acc' =
         Some (acc' @ filter (\<lambda>c. c \<noteq> []) (map (\<lambda>(a, b). trim (slice t a b)) ws))"
      "ws \<noteq> []" "fst (hd ws) = e - 200"
      "successively (\<lambda>(a, b) (a', b'). a' = b - 200) ws"
      "list_all (\<lambda>(a, b). 0 \<le> a \<and> a < int (length t) \<and> a + 500 < b \<and> b \<le> a + 1001 \<and>
                        (int (length t) \<le> a + 1000 \<longrightarrow> b = a + 1000)) ws"
      "int (length t) + 200 \<le> snd (last ws)"
      by blast
    from ws(2,3) obtain b' ws' where w: "ws = (e - 200, b') # ws'"
      by (cases ws) auto
    show ?thesis
      using step ws less.prems lo up past
      by (intro exI [of _ "(start, e) # ws"]) (simp add: acc' c_def w)
  qed
qed

subsection \<open>Windows of a text of 2500 characters\<close>
















text \<open>
  A sentence end found exactly at \<open>start + maxChunkSize\<close> is included in the chunk,
  which is then one character longer than the size.
\<close>

lemma chunk_longer_than_size:
  "chunkText ''abcd.efghij'' 4 1 = Some [''abcd.'', ''.efg'', ''ghij'', ''j'']"
  by code_simp

section \<open>Properties of the normalizer\<close>

lemma collapse_ws_spaces:
  "c \<in> set (collapse_ws s) \<Longrightarrow> is_space c \<Longrightarrow> c = CHR '' ''"
proof (induction s rule: collapse_ws.induct)
  case 1
  then show ?case by simp
next
  case (2 d ds)
  then show ?case by (auto split: if_splits)
qed

lemma collapse_newlines_none:
  "newline \<notin> set s \<Longrightarrow> collapse_newlines s = s"
  by (induction s) (auto simp: Let_def)

lemma dropWhile_hd:
  "dropWhile P s = [] \<or> \<not> P (hd (dropWhile P s))"
  by (induction s) auto

lemma trim_idem: "trim (trim s) = trim s"
proof -
  define a where "a = dropWhile is_space s"
  define b where "b = dropWhile is_space (rev a)"
  have tb: "trim s = rev b" by (simp add: trim_def a_def b_def)
  have "dropWhile is_space (rev b) = rev b"
  proof (cases "b = []")
    case True
    then show ?thesis by simp
  next
    case False
    then have "rev a \<noteq> []" by (auto simp: b_def)
    then have "a \<noteq> []" by simp
    have "last b = last (rev a)"
      unfolding b_def using False
      by (metis b_def last_appendR takeWhile_dropWhile_id)
    also have "\<dots> = hd a" using \<open>a \<noteq> []\<close> by (simp add: last_rev)
    finally have "hd (rev b) = hd a" using False by (simp add: hd_rev)
    moreover have "\<not> is_space (hd a)"
      using dropWhile_hd [of is_space s] \<open>a \<noteq> []\<close> unfolding a_def by blast
    ultimately show ?thesis using False by (cases "rev b") auto
  qed
  then have "trim (rev b) = rev (dropWhile is_space (rev (rev b)))"
    by (simp only: trim_def)
  also have "\<dots> = rev (dropWhile is_space b)"
    by simp
  also have "dropWhile is_space b = b"
    unfolding b_def by (simp add: dropWhile_idem)
  finally show ?thesis
    by (simp only: tb)
qed

lemma trim_Nil: "trim [] = []"
  by (simp add: trim_def)

lemma normalizeText_trimmed: "trim (normalizeText x) = normalizeText x"
  by (simp add: normalizeText_def trim_idem trim_Nil)



text \<open>A normalized text that is single-spaced and free of artifacts is a fixed point.\<close>

lemma normalizeText_fixed:
  assumes "collapse_ws (normalizeText x) = normalizeText x"
    and "artifact_free (normalizeText x)"
  shows "normalizeText (normalizeText x) = normalizeText x"
proof -
  define z where "z = normalizeText x"
  have "newline \<notin> set z"
  proof
    assume "newline \<in> set z"
    then have "newline \<in> set (collapse_ws z)" using assms(1) by (simp add: z_def)
    then have "newline = CHR '' ''"
      by (rule collapse_ws_spaces) (simp add: is_space_def newline_def)
    then show False by (simp add: newline_def)
  qed
  then have "collapse_newlines z = z" by (rule collapse_newlines_none)
  moreover have "strip_page z = z" "strip_counter z = z" "strip_caps z = z"
    using assms(2) by (simp_all add: artifact_free_def z_def)
  moreover have "collapse_ws z = z" using assms(1) by (simp add: z_def)
  moreover have "trim z = z" unfolding z_def by (rule normalizeText_trimmed)
  ultimately have "normalizeText z = z"
    by (simp add: normalizeText_def normalizeNFKC_def)
  then show ?thesis by (simp add: z_def)
qed

lemma single_spaced_collapse: "single_spaced (collapse_ws s)"
proof (induction s rule: collapse_ws.induct)
  case 1
  show ?case by simp
next
  case (2 c cs)
  show ?case
  proof (cases "is_space c")
    case True
    have "single_spaced (collapse_ws (dropWhile is_space cs))"
      using 2(1) [OF True] .
    moreover have "collapse_ws (dropWhile is_space cs) = [] \<or>
      (\<exists>d ds. collapse_ws (dropWhile is_space cs) = d # ds \<and> \<not> is_space d)"
    proof (cases "dropWhile is_space cs")
      case Nil
      have "collapse_ws (dropWhile is_space cs) = collapse_ws []"
        by (simp only: Nil)
      then show ?thesis by simp
    next
      case (Cons d ds)
      then have "\<not> is_space d" by (metis dropWhile_eq_Cons_conv)
      with Cons show ?thesis by simp
    qed
    ultimately show ?thesis using True by auto
  next
    case False
    have "single_spaced (collapse_ws cs)" using 2(2) [OF False] .
    then show ?thesis using False
      by (cases "collapse_ws cs") simp_all
  qed
qed

lemma single_spaced_fixed: "single_spaced s \<Longrightarrow> collapse_ws s = s"
proof (induction s rule: single_spaced.induct)
  case 1
  show ?case by simp
next
  case (2 c)
  then show ?case by auto
next
  case (3 c d cs)
  then show ?case by auto
qed

lemma single_spaced_tail: "single_spaced (c # cs) \<Longrightarrow> single_spaced cs"
  by (cases cs) simp_all

lemma single_spaced_dropWhile: "single_spaced s \<Longrightarrow> single_spaced (dropWhile P s)"
  by (induction s) (auto dest: single_spaced_tail)

lemma single_spaced_prefix: "single_spaced (xs @ ys) \<Longrightarrow> single_spaced xs"
proof (induction xs rule: single_spaced.induct)
  case 1
  show ?case by simp
next
  case (2 c)
  then show ?case by (cases ys) simp_all
next
  case (3 c d cs)
  then show ?case by simp
qed

lemma single_spaced_trim: "single_spaced s \<Longrightarrow> single_spaced (trim s)"
proof -
  assume a: "single_spaced s"
  define b where "b = dropWhile is_space s"
  have "b = rev (dropWhile is_space (rev b)) @ rev (takeWhile is_space (rev b))"
    by (metis rev_append rev_rev_ident takeWhile_dropWhile_id)
  moreover have "single_spaced b"
    unfolding b_def using a by (rule single_spaced_dropWhile)
  ultimately have "single_spaced (rev (dropWhile is_space (rev b)))"
    by (metis single_spaced_prefix)
  then show ?thesis by (simp add: trim_def b_def)
qed

lemma collapse_ws_trim_collapse:
  "collapse_ws (trim (collapse_ws x)) = trim (collapse_ws x)"
  by (intro single_spaced_fixed single_spaced_trim single_spaced_collapse)

lemma collapse_ws_no_newline: "newline \<notin> set (collapse_ws s)"
proof
  assume "newline \<in> set (collapse_ws s)"
  then have "newline = CHR '' ''"
    by (rule collapse_ws_spaces) (simp add: is_space_def newline_def)
  then show False by (simp add: newline_def)
qed

lemma normalizeText_without_artifacts:
  assumes "artifact_free (collapse_ws x)"
  shows "normalizeText x = trim (collapse_ws x)"
proof (cases "x = []")
  case True
  then show ?thesis by (simp add: normalizeText_def trim_Nil)
next
  case False
  have "collapse_newlines (collapse_ws x) = collapse_ws x"
    by (rule collapse_newlines_none) (rule collapse_ws_no_newline)
  with False assms show ?thesis
    by (simp add: normalizeText_def normalizeNFKC_def artifact_free_def)
qed


lemma strip_page_length:
  "length (strip_page s) \<le> length s \<and> (page_match s \<longrightarrow> length (strip_page s) < length s)"
proof (induction s rule: strip_page.induct)
  case 1
  show ?case by (simp add: page_match_def)
next
  case (2 c cs)
  show ?case
  proof (cases "page_match (c # cs)")
    case True
    have "length (strip_page (dropWhile is_digit (drop 5 (c # cs))))
        \<le> length (dropWhile is_digit (drop 5 (c # cs)))"
      using 2(1) [OF True] by simp
    also have "\<dots> \<le> length (drop 5 (c # cs))" by (rule length_dropWhile_le)
    also have "\<dots> < length (c # cs)" by simp
    finally show ?thesis using True by simp
  next
    case False
    with 2(2) show ?thesis by simp
  qed
qed

lemma strip_page_fixed_iff:
  "strip_page s = s \<longleftrightarrow> (\<forall>k<length s. \<not> page_match (drop k s))"
proof (induction s)
  case Nil
  show ?case by simp
next
  case (Cons c cs)
  show ?case
  proof (cases "page_match (c # cs)")
    case True
    then have "length (strip_page (c # cs)) < length (c # cs)"
      using strip_page_length [of "c # cs"] by simp
    then have "strip_page (c # cs) \<noteq> c # cs" by auto
    moreover have "\<not> (\<forall>k<length (c # cs). \<not> page_match (drop k (c # cs)))"
      using True by (auto intro: exI [of _ 0])
    ultimately show ?thesis by simp
  next
    case False
    have "(\<forall>k<length (c # cs). \<not> page_match (drop k (c # cs))) \<longleftrightarrow>
          (\<forall>k<length cs. \<not> page_match (drop k cs))"
      using False by (auto simp: less_Suc_eq_0_disj)
    with False Cons show ?thesis by simp
  qed
qed

lemma strip_counter_length:
  "length (strip_counter s) \<le> length s \<and>
   (counter_rest s \<noteq> None \<longrightarrow> length (strip_counter s) < length s)"
proof (induction s rule: strip_counter.induct)
  case 1
  show ?case by (simp add: counter_rest_def)
next
  case (2 c cs)
  show ?case
  proof (cases "counter_rest (c # cs)")
    case None
    with 2(1) [OF None] show ?thesis by simp
  next
    case (Some r)
    have "length (strip_counter r) \<le> length r"
      using 2(2) [OF Some] by simp
    also have "\<dots> < length (c # cs)" using Some by (rule counter_rest_shorter)
    finally show ?thesis using Some by simp
  qed
qed

lemma strip_counter_fixed_iff:
  "strip_counter s = s \<longleftrightarrow> (\<forall>k<length s. counter_rest (drop k s) = None)"
proof (induction s)
  case Nil
  show ?case by simp
next
  case (Cons c cs)
  show ?case
  proof (cases "counter_rest (c # cs)")
    case (Some r)
    then have "length (strip_counter (c # cs)) < length (c # cs)"
      using strip_counter_length [of "c # cs"] by simp
    then have "strip_counter (c # cs) \<noteq> c # cs" by auto
    moreover have "\<not> (\<forall>k<length (c # cs). counter_rest (drop k (c # cs)) = None)"
      using Some by (auto intro: exI [of _ 0])
    ultimately show ?thesis by simp
  next
    case None
    have "(\<forall>k<length (c # cs). counter_rest (drop k (c # cs)) = None) \<longleftrightarrow>
          (\<forall>k<length cs. counter_rest (drop k cs) = None)"
      using None by (auto simp: less_Suc_eq_0_disj)
    with None Cons show ?thesis by simp
  qed
qed

lemma caps_match_bounds:
  assumes "caps_match s = Some n"
  shows "3 \<le> n \<and> n \<le> length s"
proof -
  from assms have "3 \<le> n \<and> n \<le> length (takeWhile caps_class (take 50 s))"
    unfolding caps_match_def by (rule caps_try_bounds)
  moreover have "length (takeWhile caps_class (take 50 s)) \<le> length (take 50 s)"
    by (rule length_takeWhile_le)
  ultimately show ?thesis by simp
qed

lemma strip_caps_from_length:
  "length (strip_caps_from b s) \<le> length s \<and>
   (b \<and> caps_match s \<noteq> None \<longrightarrow> length (strip_caps_from b s) < length s)"
proof (induction b s rule: strip_caps_from.induct)
  case (1 bol)
  show ?case by (simp add: caps_match_def)
next
  case (2 bol c cs)
  show ?case
  proof (cases "if bol then caps_match (c # cs) else None")
    case None
    with 2(1) [OF None] show ?thesis by (auto split: if_splits)
  next
    case (Some n)
    then have m: "bol" "caps_match (c # cs) = Some n" by (auto split: if_splits)
    from caps_match_bounds [OF m(2)] have n: "3 \<le> n" "n \<le> length (c # cs)" by simp_all
    have "length (strip_caps_from (is_line_term ((c # cs) ! (n - 1))) (drop n (c # cs)))
        \<le> length (drop n (c # cs))"
      using 2(2) [OF Some] by simp
    also have "\<dots> < length (c # cs)" using n by simp
    finally show ?thesis using Some m by simp
  qed
qed

lemma strip_caps_from_plain:
  "(\<And>c. c \<in> set s \<Longrightarrow> \<not> is_line_term c) \<Longrightarrow> strip_caps_from False s = s"
  by (induction s) simp_all

lemma strip_caps_fixed_iff:
  assumes "\<And>c. c \<in> set s \<Longrightarrow> \<not> is_line_term c"
  shows "strip_caps s = s \<longleftrightarrow> caps_match s = None"
proof (cases s)
  case Nil
  then show ?thesis by (simp add: strip_caps_def caps_match_def)
next
  case (Cons c cs)
  show ?thesis
  proof (cases "caps_match s")
    case None
    have "strip_caps_from False cs = cs"
      using assms Cons by (intro strip_caps_from_plain) simp
    moreover have "\<not> is_line_term c" using assms Cons by simp
    ultimately show ?thesis using None Cons by (simp add: strip_caps_def)
  next
    case (Some n)
    then have "length (strip_caps s) < length s"
      using strip_caps_from_length [of True s] by (simp add: strip_caps_def)
    then have "strip_caps s \<noteq> s" by auto
    with Some show ?thesis by simp
  qed
qed

lemma single_spaced_spaces: "single_spaced s \<Longrightarrow> c \<in> set s \<Longrightarrow> is_space c \<Longrightarrow> c = CHR '' ''"
  by (induction s rule: single_spaced.induct) auto

lemma single_spaced_no_line_term:
  assumes "single_spaced s" "c \<in> set s"
  shows "\<not> is_line_term c"
proof
  assume l: "is_line_term c"
  then have "is_space c" by (auto simp: is_line_term_def is_space_def)
  with assms have "c = CHR '' ''" by (rule single_spaced_spaces)
  with l show False by (simp add: is_line_term_def)
qed

lemma artifact_free_iff:
  assumes "single_spaced s"
  shows "artifact_free s \<longleftrightarrow> no_artifact s"
proof -
  have "strip_caps s = s \<longleftrightarrow> caps_match s = None"
    using assms by (intro strip_caps_fixed_iff) (rule single_spaced_no_line_term)
  then show ?thesis
    by (auto simp: artifact_free_def no_artifact_def strip_page_fixed_iff
        strip_counter_fixed_iff list_all_iff)
qed






lemma normalizeText_is_fixed:
  assumes "single_spaced y" and "artifact_free y" and "trim y = y"
  shows "normalizeText y = y"
proof (cases "y = []")
  case True
  then show ?thesis by (simp add: normalizeText_def)
next
  case False
  have c: "collapse_ws y = y" using assms(1) by (rule single_spaced_fixed)
  have "collapse_newlines (collapse_ws y) = collapse_ws y"
    by (rule collapse_newlines_none) (rule collapse_ws_no_newline)
  with False assms c show ?thesis
    by (simp add: normalizeText_def normalizeNFKC_def artifact_free_def)
qed





section \<open>Properties of document processing\<close>

lemma chunkText_default_returns:
  "\<exists>chunks. chunkText s 1000 200 = Some chunks"
  unfolding chunkText_def by (rule chunk_loop_returns) simp_all

text \<open>
  C7 (as amended). For a file of a supported type and admissible size whose extracted
  text is ASCII, processing fails as an empty document (status 400) exactly when the
  trimmed extracted text, or else the trimmed normalized text, has fewer than 10
  characters, whitespace between its words counted. Any other document proceeds to the
  chunker and succeeds with its chunks.
\<close>

theorem processDocument_empty_iff:
  assumes "detectFileType filename = Inr fileType"
    and "length fileContent \<le> 10 * 1024 * 1024"
    and "extract_text ex fileType fileContent = Inr rawText"
    and "ascii_text rawText"
  shows "\<exists>r. processDocument ex fileContent filename = Some r \<and>
           (empty_document_error r \<longleftrightarrow>
              length (trim rawText) < 10 \<or> length (trim (normalizeText rawText)) < 10) \<and>
           (\<not> empty_document_error r \<longrightarrow>
              (\<exists>chunks m. r = ProcessOk chunks m \<and>
                 chunkText (normalizeText rawText) 1000 200 = Some chunks))"
proof -
  obtain chunks where c: "chunkText (normalizeText rawText) 1000 200 = Some chunks"
    using chunkText_default_returns by blast
  have e: "rawText = [] \<Longrightarrow> length (trim rawText) < 10"
    by (simp add: trim_Nil)
  have e': "normalizeText rawText = [] \<Longrightarrow> length (trim (normalizeText rawText)) < 10"
    by (simp add: trim_Nil)
  show ?thesis
    using assms c e e'
    by (auto simp: processDocument_def empty_document_error_def Let_def)
qed

theorem processDocument_empty_iff_witness:
  "detectFileType ''notes.txt'' = Inr ''txt'' \<and>
   length ''   tiny   '' \<le> 10 * 1024 * 1024 \<and>
   extract_text plain_extractors ''txt'' ''   tiny   '' = Inr ''   tiny   '' \<and>
   ascii_text ''   tiny   '' \<and>
   (\<exists>r. processDocument plain_extractors ''   tiny   '' ''notes.txt'' = Some r \<and>
        empty_document_error r)"
proof -
  have d: "detectFileType ''notes.txt'' = Inr ''txt''"
    by code_simp
  have l: "length ''   tiny   '' \<le> 10 * 1024 * 1024"
    by simp
  have e: "extract_text plain_extractors ''txt'' ''   tiny   '' = Inr ''   tiny   ''"
    by (simp add: extract_text_def plain_extractors_def)
  have a: "ascii_text ''   tiny   ''"
    by code_simp
  have t: "length (trim ''   tiny   '') < 10"
    by code_simp
  from processDocument_empty_iff [OF d l e a] t show ?thesis
    using d l e a by blast
qed

lemma detectFileType_notes: "detectFileType ''notes.txt'' = Inr ''txt''"
  by code_simp

lemma normalizeText_letters_example:
  "normalizeText ''a b c d e f'' = ''a b c d e f''"
  by code_simp

lemma trim_letters_example: "trim ''a b c d e f'' = ''a b c d e f''"
  by code_simp

lemma chunkText_letters_example:
  "chunkText ''a b c d e f'' 1000 200 = Some [''a b c d e f'']"
  by code_simp

text \<open>
  C7 as stated fails: the text \<open>a b c d e f\<close> has six characters that are not
  whitespace, fewer than ten, and is processed into a chunk all the same, since its
  eleven characters are counted with the spaces between them.
\<close>

theorem processDocument_counts_spaces_counterexample:
  "length (filter (\<lambda>c. \<not> is_space c) (trim ''a b c d e f'')) = 6 \<and>
   processDocument plain_extractors ''a b c d e f'' ''notes.txt'' =
     Some (ProcessOk [''a b c d e f'']
       \<lparr>totalChunks = 1, totalTokens = 3, totalCharacters = 11,
        meta_filename = ''notes.txt''\<rparr>)"
proof -
  have "length (filter (\<lambda>c. \<not> is_space c) (trim ''a b c d e f'')) = 6"
    by code_simp
  moreover have "processDocument plain_extractors ''a b c d e f'' ''notes.txt'' =
     Some (ProcessOk [''a b c d e f'']
       \<lparr>totalChunks = 1, totalTokens = 3, totalCharacters = 11,
        meta_filename = ''notes.txt''\<rparr>)"
    by (simp add: processDocument_def detectFileType_notes normalizeText_letters_example
        trim_letters_example chunkText_letters_example extract_text_def plain_extractors_def
        estimateTokens_def)
  ultimately show ?thesis by simp
qed

section \<open>Properties of the upload\<close>

lemma insert_batches_documents:
  "insert_batches env rows i st = (r, st') \<Longrightarrow> documents st' = documents st"
proof (induction env rows i st rule: insert_batches.induct)
  case (1 env chunkInserts i st)
  show ?case
  proof (cases "i < length chunkInserts")
    case False
    with "1.prems" show ?thesis by (simp add: insert_batches.simps)
  next
    case True
    show ?thesis
    proof (cases "chunk_batch_error env i")
      case None
      with True "1.prems" have
        "insert_batches env chunkInserts (i + 50)
           (st\<lparr>document_chunks := document_chunks st @ take 50 (drop i chunkInserts)\<rparr>) = (r, st')"
        by (subst (asm) insert_batches.simps) (simp add: Let_def)
      from "1.IH" [OF True refl None this] show ?thesis by simp
    next
      case (Some e)
      with True "1.prems" show ?thesis
        by (subst (asm) insert_batches.simps) (simp add: Let_def)
    qed
  qed
qed

lemma insert_document_row:
  assumes "insert_document env user_id name chunks st = (Some d, st1)"
  shows "doc_id d = new_document_id env \<and> doc_name d = name \<and>
         doc_content d = join [newline, newline] chunks \<and>
         documents st1 = documents st @ [d] \<and> document_chunks st1 = document_chunks st"
  using assms
  by (auto simp: insert_document_def Let_def split: option.splits if_splits)

text \<open>The paths through the workflow, one by one.\<close>

lemma store_document_cases:
  assumes "store_document env user_id name chunks st = (r, st')"
  obtains
    (embedding) err where "r = UploadFailed 500 ''UPLOAD_ERROR'' err" "st' = st"
  | (database) "r = UploadFailed 500 ''DATABASE_ERROR'' ''Failed to create document in database''"
      "insert_document env user_id name chunks st = (None, st')"
  | (validation) err d where "r = UploadFailed 500 ''UPLOAD_ERROR'' err"
      "insert_document env user_id name chunks st = (Some d, st')"
  | (refused) d st1 es b st2 where
      "r = UploadFailed 500 ''CHUNKS_ERROR'' ''Failed to store document chunks''"
      "insert_document env user_id name chunks st = (Some d, st1)"
      "insert_batches env (chunk_rows (doc_id d) 0 (zip chunks es)) 0 st1 = (Some b, st2)"
      "st' = delete_chunks env (doc_id d) (delete_document env (doc_id d) st2)"
  | (stored) d st1 es where "r = UploadOk (doc_id d) (doc_name d) (length chunks)"
      "insert_document env user_id name chunks st = (Some d, st1)"
      "insert_batches env (chunk_rows (doc_id d) 0 (zip chunks es)) 0 st1 = (None, st')"
proof (cases "embed_chunks (generateEmbedding env) chunks 0 []")
  case (Inl err)
  with assms have "r = UploadFailed 500 ''UPLOAD_ERROR'' err" "st' = st"
    by (simp_all add: store_document_def)
  then show ?thesis by (rule embedding)
next
  case (Inr es)
  show ?thesis
  proof (cases "length es \<noteq> length chunks")
    case True
    with assms Inr have
      "r = UploadFailed 500 ''UPLOAD_ERROR'' (count_mismatch (length chunks) (length es))"
      "st' = st"
      by (simp_all add: store_document_def)
    then show ?thesis by (rule embedding)
  next
    case False
    obtain od st1 where ins: "insert_document env user_id name chunks st = (od, st1)"
      by (cases "insert_document env user_id name chunks st")
    show ?thesis
    proof (cases od)
      case None
      with assms Inr False ins have
        "r = UploadFailed 500 ''DATABASE_ERROR'' ''Failed to create document in database''"
        "st' = st1"
        by (simp_all add: store_document_def)
      with ins None show ?thesis by (intro database) simp_all
    next
      case (Some d)
      note od = this
      show ?thesis
      proof (cases "check_dimensions 0 es")
        case (Some err)
        with assms Inr False ins od have
          "r = UploadFailed 500 ''UPLOAD_ERROR'' err" "st' = st1"
          by (simp_all add: store_document_def)
        with ins od show ?thesis by (intro validation) simp_all
      next
        case None
        note dims = this
        obtain ob st2 where bat:
          "insert_batches env (chunk_rows (doc_id d) 0 (zip chunks es)) 0 st1 = (ob, st2)"
          by (cases "insert_batches env (chunk_rows (doc_id d) 0 (zip chunks es)) 0 st1")
        show ?thesis
        proof (cases ob)
          case None
          with assms Inr False ins od dims bat
          have "r = UploadOk (doc_id d) (doc_name d) (length chunks)" "st' = st2"
            by (simp_all add: store_document_def)
          with ins od bat None show ?thesis by (intro stored) simp_all
        next
          case (Some b)
          obtain bi be where b: "b = (bi, be)" by (cases b)
          with assms Inr False ins od dims bat Some
          have "r = UploadFailed 500 ''CHUNKS_ERROR'' ''Failed to store document chunks''"
            "st' = delete_chunks env (doc_id d) (delete_document env (doc_id d) st2)"
            by (simp_all add: store_document_def)
          with ins od bat Some show ?thesis by (intro refused) simp_all
        qed
      qed
    qed
  qed
qed

text \<open>What reaches the store: every response before the workflow leaves the store as it was.\<close>

lemma POST_cases:
  assumes "POST env request st = Some (r, st')"
  obtains
    (early) status code message where "r = UploadFailed status code message"
      "code \<in> set [[], ''NO_FILE'', ''INVALID_FILE_TYPE'', ''FILE_TOO_LARGE'', ''PROCESSING_FAILED'']"
      "st' = st"
  | (processed) user_id upl chunks metadata where
      "session_user_id request = Some user_id" "upload request = Some upl"
      "processDocument (text_extractors env) (file_content upl) (file_name upl) =
         Some (ProcessOk chunks metadata)"
      "store_document env user_id (file_name upl) chunks st = (r, st')"
proof (cases "session_user_id request")
  case None
  with assms have "r = UploadFailed 401 [] ''Authentication required''" "st' = st"
    by (simp_all add: POST_def)
  then show ?thesis using early by simp
next
  case (Some user_id)
  note uid = this
  obtain allowed message where lim: "document_limit env user_id = (allowed, message)"
    by (cases "document_limit env user_id")
  show ?thesis
  proof (cases allowed)
    case False
    with assms uid lim obtain m where "r = UploadFailed 403 [] m" "st' = st"
      by (simp add: POST_def) blast
    then show ?thesis using early by simp
  next
    case True
    note al = this
    show ?thesis
    proof (cases "upload request")
      case None
      with assms uid lim al have
        "r = UploadFailed 400 ''NO_FILE'' ''No file provided. Please select a file to upload.''"
        "st' = st"
        by (simp_all add: POST_def)
      then show ?thesis using early by simp
    next
      case (Some upl)
      note fl = this
      show ?thesis
      proof (cases "getFileType (file_name upl) \<notin> set [''pdf'', ''txt'', ''docx'']")
        case True
        with assms uid lim al fl obtain m where
          "r = UploadFailed 400 ''INVALID_FILE_TYPE'' m" "st' = st"
          by (simp add: POST_def) blast
        then show ?thesis using early by simp
      next
        case False
        note ty = this
        show ?thesis
        proof (cases "length (file_content upl) > 10 * 1024 * 1024")
          case True
          with assms uid lim al fl ty obtain m where
            "r = UploadFailed 400 ''FILE_TOO_LARGE'' m" "st' = st"
            by (auto simp add: POST_def split: if_splits)
          then show ?thesis using early by simp
        next
          case False
          note sz = this
          from assms uid lim al fl ty sz obtain pr where
            pr: "processDocument (text_extractors env) (file_content upl) (file_name upl) = Some pr"
            by (cases "processDocument (text_extractors env) (file_content upl) (file_name upl)")
               (auto simp add: POST_def split: if_splits)
          show ?thesis
          proof (cases pr)
            case (ProcessFailed err statusCode)
            with assms uid lim al fl ty sz pr obtain m where
              "r = UploadFailed 500 ''PROCESSING_FAILED'' m" "st' = st"
              by (auto simp add: POST_def split: if_splits)
            then show ?thesis using early by simp
          next
            case (ProcessOk chunks metadata)
            with assms uid lim al fl ty sz pr have
              "store_document env user_id (file_name upl) chunks st = (r, st')"
              by (auto simp add: POST_def split: if_splits)
            with uid fl pr ProcessOk show ?thesis by (intro processed) simp_all
          qed
        qed
      qed
    qed
  qed
qed

lemma store_document_ok:
  assumes "store_document env user_id name chunks st = (UploadOk document_id nm n, st')"
  shows "\<exists>d. documents st' = documents st @ [d] \<and> doc_id d = document_id \<and>
             doc_content d = join [newline, newline] chunks \<and> n = length chunks"
  using assms
proof (cases rule: store_document_cases)
  case (stored d st1 es)
  from insert_batches_documents [OF stored(3)] insert_document_row [OF stored(2)] stored(1)
  show ?thesis by auto
qed simp_all

lemma store_document_rolled_back:
  assumes "store_document env user_id name chunks st = (UploadFailed status ''CHUNKS_ERROR'' message, st')"
    and "\<not> delete_document_fails env" and "\<not> delete_chunks_fails env"
  shows "(\<forall>d\<in>set (documents st'). doc_id d \<noteq> new_document_id env) \<and>
         (\<forall>c\<in>set (document_chunks st'). chunk_document_id c \<noteq> new_document_id env)"
  using assms(1)
proof (cases rule: store_document_cases)
  case (refused d st1 es b st2)
  from insert_document_row [OF refused(2)] have "doc_id d = new_document_id env" by simp
  with refused(4) assms(2,3) show ?thesis
    by (auto simp: delete_chunks_def delete_document_def)
qed simp_all

text \<open>
  When the identifier of the new row is fresh, the two deletions undo the upload: the
  store is the one the upload started from.
\<close>

lemma chunk_rows_document_id:
  "c \<in> set (chunk_rows document_id i rows) \<Longrightarrow> chunk_document_id c = document_id"
  by (induction document_id i rows rule: chunk_rows.induct) auto

lemma insert_batches_chunks:
  "insert_batches env rows i st = (r, st') \<Longrightarrow>
   \<exists>added. document_chunks st' = document_chunks st @ added \<and> set added \<subseteq> set rows"
proof (induction env rows i st rule: insert_batches.induct)
  case (1 env chunkInserts i st)
  show ?case
  proof (cases "i < length chunkInserts")
    case False
    with "1.prems" show ?thesis by (simp add: insert_batches.simps)
  next
    case True
    show ?thesis
    proof (cases "chunk_batch_error env i")
      case None
      define st1 where
        "st1 = st\<lparr>document_chunks := document_chunks st @ take 50 (drop i chunkInserts)\<rparr>"
      from None True "1.prems" have
        "insert_batches env chunkInserts (i + 50) st1 = (r, st')"
        unfolding st1_def by (subst (asm) insert_batches.simps) (simp add: Let_def)
      from "1.IH" [OF True refl None this [unfolded st1_def]] obtain added where
        "document_chunks st' = document_chunks st1 @ added" "set added \<subseteq> set chunkInserts"
        unfolding st1_def by blast
      moreover have "set (take 50 (drop i chunkInserts)) \<subseteq> set chunkInserts"
        by (meson in_set_dropD in_set_takeD subsetI)
      ultimately have
        "document_chunks st' = document_chunks st @ (take 50 (drop i chunkInserts) @ added)"
        "set (take 50 (drop i chunkInserts) @ added) \<subseteq> set chunkInserts"
        by (simp_all add: st1_def)
      then show ?thesis by blast
    next
      case (Some e)
      with True "1.prems" show ?thesis
        by (subst (asm) insert_batches.simps) (simp add: Let_def)
    qed
  qed
qed

lemma filter_fresh: "(\<And>x. x \<in> set xs \<Longrightarrow> P x) \<Longrightarrow> filter P xs = xs"
  by (induction xs) auto

lemma store_document_restored:
  assumes "store_document env user_id name chunks st = (UploadFailed status ''CHUNKS_ERROR'' message, st')"
    and "\<not> delete_document_fails env" and "\<not> delete_chunks_fails env"
    and "\<forall>d\<in>set (documents st). doc_id d \<noteq> new_document_id env"
    and "\<forall>c\<in>set (document_chunks st). chunk_document_id c \<noteq> new_document_id env"
  shows "st' = st"
  using assms(1)
proof (cases rule: store_document_cases)
  case (refused d st1 es b st2)
  from insert_document_row [OF refused(2)] have
    id: "doc_id d = new_document_id env" and
    d1: "documents st1 = documents st @ [d]" and c1: "document_chunks st1 = document_chunks st"
    by simp_all
  from insert_batches_documents [OF refused(3)] have d2: "documents st2 = documents st1" .
  from insert_batches_chunks [OF refused(3)] obtain added where
    c2: "document_chunks st2 = document_chunks st1 @ added"
    and sub: "set added \<subseteq> set (chunk_rows (doc_id d) 0 (zip chunks es))"
    by blast
  have a: "filter (\<lambda>c. chunk_document_id c \<noteq> new_document_id env) added = []"
    using sub chunk_rows_document_id [of _ "doc_id d" 0 "zip chunks es"] id
    by (auto simp: filter_empty_conv)
  have "documents st' = documents st"
    using refused(4) assms(2,3,4) id d1 d2
    by (simp add: delete_chunks_def delete_document_def filter_fresh)
  moreover have "document_chunks st' = document_chunks st"
    using refused(4) assms(2,3,5) id c1 c2 a
    by (simp add: delete_chunks_def delete_document_def filter_fresh)
  moreover have "store.more st' = store.more st"
    by simp
  ultimately show ?thesis by simp
qed simp_all

text \<open>The upload of the instance, evaluated.\<close>

lemma getFileType_notes: "getFileType ''notes.txt'' = ''txt''"
  by code_simp

lemma normalizeText_hello_example:
  "normalizeText ''Hello world. This is a test.'' = ''Hello world. This is a test.''"
  by code_simp

lemma trim_hello_example:
  "trim ''Hello world. This is a test.'' = ''Hello world. This is a test.''"
  by code_simp

lemma chunkText_hello_example:
  "chunkText ''Hello world. This is a test.'' 1000 200 = Some [''Hello world. This is a test.'']"
  by code_simp

lemma processDocument_hello_example:
  "processDocument plain_extractors ''Hello world. This is a test.'' ''notes.txt'' =
   Some (ProcessOk [''Hello world. This is a test.'']
     \<lparr>totalChunks = 1, totalTokens = 7, totalCharacters = 28, meta_filename = ''notes.txt''\<rparr>)"
  by (simp add: processDocument_def detectFileType_notes normalizeText_hello_example
      trim_hello_example chunkText_hello_example extract_text_def plain_extractors_def
      estimateTokens_def)

lemma embed_chunks_single: "embed_chunks (\<lambda>c. Inr v) [c] 0 [] = Inr [v]"
  by (simp add: embed_chunks.simps)

lemmas demo_simps =
  POST_def demo_env_def demo_request_def empty_store_def getFileType_notes
  processDocument_hello_example store_document_def embed_chunks_single insert_document_def
  delete_document_def delete_chunks_def Let_def insert_batches.simps

lemma upload_stored_example:
  "POST (demo_env 1536 (\<lambda>i. None) False) demo_request empty_store =
     Some (UploadOk ''doc-1'' ''notes.txt'' 1,
       \<lparr>documents =
          [\<lparr>doc_id = ''doc-1'', doc_user_id = ''user-1'', doc_name = ''notes.txt'',
            doc_content = ''Hello world. This is a test.'', doc_chunk_count = Some 1\<rparr>],
        document_chunks =
          [\<lparr>chunk_document_id = ''doc-1'', chunk_content = ''Hello world. This is a test.'',
            chunk_embedding = replicate 1536 (Fin 0), chunk_index = 0,
            chunk_similarity = None\<rparr>]\<rparr>)"
  by (simp add: demo_simps)

lemma upload_refused_example:
  "POST (demo_env 1536 (\<lambda>i. Some ''timeout'') False) demo_request empty_store =
     Some (UploadFailed 500 ''CHUNKS_ERROR'' ''Failed to store document chunks'', empty_store)"
  by (simp add: demo_simps)

text \<open>
  C1: the code does not do what the claim says. The dimensions of the embeddings are
  checked after the document row has been inserted, and the failure of that check is
  reported without deleting the row. Here the embedding service answers with vectors of
  three numbers: the upload fails and the document row stays in the store.
\<close>

theorem upload_wrong_dimension_keeps_document:
  "POST (demo_env 3 (\<lambda>i. None) False) demo_request empty_store =
     Some (UploadFailed 500 ''UPLOAD_ERROR''
             ''Embedding at index 0 has wrong dimension: expected 1536, got 3'',
       \<lparr>documents =
          [\<lparr>doc_id = ''doc-1'', doc_user_id = ''user-1'', doc_name = ''notes.txt'',
            doc_content = ''Hello world. This is a test.'', doc_chunk_count = Some 1\<rparr>],
        document_chunks = []\<rparr>)"
  by (simp add: demo_simps show_nat.simps)

text \<open>The same for every upload: a wrong dimension leaves the inserted row behind.\<close>

lemma wrong_dimension_keeps_document:
  assumes "embed_chunks (generateEmbedding env) chunks 0 [] = Inr es"
    and "length es = length chunks"
    and "insert_document env user_id name chunks st = (Some d, st1)"
    and "check_dimensions 0 es = Some err"
  shows "store_document env user_id name chunks st = (UploadFailed 500 ''UPLOAD_ERROR'' err, st1) \<and>
         documents st1 = documents st @ [d]"
  using assms insert_document_row [OF assms(3)] by (simp add: store_document_def)

subsection \<open>The chunks of a normalized text\<close>

lemma trim_empty_iff: "trim s = [] \<longleftrightarrow> (\<forall>c\<in>set s. is_space c)"
proof
  assume "trim s = []"
  then have a: "\<forall>c\<in>set (dropWhile is_space s). is_space c"
    by (simp add: trim_def dropWhile_eq_Nil_conv)
  have "dropWhile is_space s = []"
  proof (rule ccontr)
    assume n: "dropWhile is_space s \<noteq> []"
    with dropWhile_hd [of is_space s] have "\<not> is_space (hd (dropWhile is_space s))" by blast
    moreover have "hd (dropWhile is_space s) \<in> set (dropWhile is_space s)"
      using n by simp
    ultimately show False using a by blast
  qed
  then show "\<forall>c\<in>set s. is_space c"
    by (simp add: dropWhile_eq_Nil_conv)
next
  assume "\<forall>c\<in>set s. is_space c"
  then have "dropWhile is_space s = []"
    by (simp add: dropWhile_eq_Nil_conv)
  then show "trim s = []" by (simp only: trim_def rev.simps dropWhile.simps)
qed

lemma trim_fixed_ends:
  assumes "trim s = s" "s \<noteq> []"
  shows "\<not> is_space (hd s) \<and> \<not> is_space (last s)"
proof -
  define b where "b = dropWhile is_space s"
  have s: "s = rev (dropWhile is_space (rev b))"
    using assms(1) by (simp add: trim_def b_def)
  have "length s \<le> length b"
    using length_dropWhile_le [of is_space "rev b"] by (subst s) simp
  moreover have "b = drop (length (takeWhile is_space s)) s"
    unfolding b_def by (rule dropWhile_eq_drop)
  ultimately have "length s \<le> length s - length (takeWhile is_space s)"
    by simp
  moreover have "0 < length s" using assms(2) by simp
  ultimately have "length (takeWhile is_space s) = 0"
    by linarith
  then have "takeWhile is_space s = []" by simp
  then have h: "\<not> is_space (hd s)"
    using assms(2) by (cases s) (auto split: if_splits)
  have "rev s = dropWhile is_space (rev b)"
    by (subst s) simp
  moreover have "b = s"
    unfolding b_def using h assms(2) by (cases s) auto
  ultimately have "dropWhile is_space (rev s) = rev s" by simp
  then have "\<not> is_space (hd (rev s))"
    using dropWhile_hd [of is_space "rev s"] assms(2) by auto
  then have "\<not> is_space (last s)"
    using assms(2) by (simp add: hd_rev)
  with h show ?thesis by simp
qed

lemma strip_page_set: "set (strip_page s) \<subseteq> set s"
proof (induction s rule: strip_page.induct)
  case 1
  show ?case by simp
next
  case (2 c cs)
  show ?case
  proof (cases "page_match (c # cs)")
    case True
    have "set (strip_page (dropWhile is_digit (drop 5 (c # cs)))) \<subseteq>
        set (dropWhile is_digit (drop 5 (c # cs)))"
      using 2(1) [OF True] .
    also have "\<dots> \<subseteq> set (drop 5 (c # cs))" by (auto dest: set_dropWhileD)
    also have "\<dots> \<subseteq> set (c # cs)" by (rule set_drop_subset)
    finally show ?thesis using True by simp
  next
    case False
    with 2(2) show ?thesis by auto
  qed
qed

lemma counter_rest_set:
  assumes "counter_rest s = Some r"
  shows "set r \<subseteq> set s"
proof -
  from assms obtain c s' where s: "s = c # s'" and dc: "is_digit c"
    by (auto simp: counter_rest_def split: list.splits if_splits)
  from assms s dc obtain sl r3 where
    r2: "dropWhile is_space (dropWhile is_digit s) = sl # r3"
    by (auto simp: counter_rest_def split: list.splits if_splits)
  from assms s dc r2 obtain d r5 where
    r4: "dropWhile is_space r3 = d # r5" and r: "r = dropWhile is_digit r5"
    by (auto simp: counter_rest_def split: list.splits if_splits)
  have "set r \<subseteq> set r5"
    unfolding r by (auto dest: set_dropWhileD)
  also have "\<dots> \<subseteq> set (dropWhile is_space r3)"
    by (auto simp: r4)
  also have "\<dots> \<subseteq> set r3"
    by (auto dest: set_dropWhileD)
  also have "\<dots> \<subseteq> set (dropWhile is_space (dropWhile is_digit s))"
    by (auto simp: r2)
  also have "\<dots> \<subseteq> set s"
    by (auto dest!: set_dropWhileD)
  finally show ?thesis .
qed

lemma strip_counter_set: "set (strip_counter s) \<subseteq> set s"
proof (induction s rule: strip_counter.induct)
  case 1
  show ?case by simp
next
  case (2 c cs)
  show ?case
  proof (cases "counter_rest (c # cs)")
    case None
    with 2(1) [OF None] show ?thesis by auto
  next
    case (Some r)
    with 2(2) [OF Some] counter_rest_set [OF Some] show ?thesis by auto
  qed
qed

lemma strip_caps_from_set: "set (strip_caps_from b s) \<subseteq> set s"
proof (induction b s rule: strip_caps_from.induct)
  case (1 bol)
  show ?case by simp
next
  case (2 bol c cs)
  show ?case
  proof (cases "if bol then caps_match (c # cs) else None")
    case None
    with 2(1) [OF None] show ?thesis by auto
  next
    case (Some n)
    have "set (strip_caps_from (is_line_term ((c # cs) ! (n - 1))) (drop n (c # cs)))
        \<subseteq> set (drop n (c # cs))"
      using 2(2) [OF Some] .
    also have "\<dots> \<subseteq> set (c # cs)" by (rule set_drop_subset)
    finally show ?thesis using Some by simp
  qed
qed

lemma trim_set: "set (trim s) \<subseteq> set s"
  by (auto simp: trim_def dest!: set_dropWhileD)

lemma normalizeText_no_newline: "newline \<notin> set (normalizeText x)"
proof (cases "x = []")
  case True
  then show ?thesis by (simp add: normalizeText_def)
next
  case False
  have "collapse_newlines (collapse_ws x) = collapse_ws x"
    by (rule collapse_newlines_none) (rule collapse_ws_no_newline)
  then have "normalizeText x = trim (strip_caps (strip_counter (strip_page (collapse_ws x))))"
    using False by (simp add: normalizeText_def normalizeNFKC_def)
  moreover have "set (trim (strip_caps (strip_counter (strip_page (collapse_ws x)))))
      \<subseteq> set (collapse_ws x)"
    using trim_set strip_caps_from_set strip_counter_set strip_page_set
    unfolding strip_caps_def by (meson subset_trans)
  ultimately show ?thesis
    using collapse_ws_no_newline [of x] by auto
qed

lemma join_newline:
  "newline \<in> set (join [newline, newline] (x # y # ys))"
  by simp

text \<open>The chunks of a trimmed text.\<close>

lemma chunkText_short:
  assumes "trim t = t" "t \<noteq> []" "length t \<le> 800"
  shows "chunkText t 1000 200 = Some [t]"
proof -
  have e: "chunk_end t 1000 0 = 1000"
    using assms(3) by (simp add: chunk_end_def)
  have s: "slice t 0 1000 = t"
    using assms(3) by (simp add: slice_nonneg)
  show ?thesis
    unfolding chunkText_def using assms
    by (subst chunk_loop.simps) (simp add: e s Let_def)
qed

lemma filter_ends:
  assumes "ws = w # ws'" "ws' \<noteq> []" "P (f w)" "P (f (last ws))"
  shows "2 \<le> length (filter P (map f ws))"
proof -
  from assms(2) obtain m l where m: "ws' = m @ [l]"
    by (metis rev_exhaust)
  with assms show ?thesis by simp
qed

lemma chunkText_long:
  assumes "trim t = t" "800 < length t"
  shows "\<exists>chunks ws. chunkText t 1000 200 = Some chunks \<and> 2 \<le> length chunks \<and>
           chunks = filter (\<lambda>c. c \<noteq> []) (map (\<lambda>(a, b). trim (slice t a b)) ws) \<and>
           fst (hd ws) = 0 \<and>
           successively (\<lambda>(a, b) (a', b'). a' = b - 200) ws \<and>
           list_all (\<lambda>(a, b). 0 \<le> a \<and> a < int (length t) \<and> a + 500 < b \<and> b \<le> a + 1001) ws"
proof -
  have ne: "t \<noteq> []" using assms(2) by auto
  from trim_fixed_ends [OF assms(1) ne] have h: "\<not> is_space (hd t)" and l: "\<not> is_space (last t)"
    by simp_all
  have "\<exists>ws. chunk_loop t 1000 200 0 [] =
           Some ([] @ filter (\<lambda>c. c \<noteq> []) (map (\<lambda>(a, b). trim (slice t a b)) ws)) \<and>
         ws \<noteq> [] \<and> fst (hd ws) = 0 \<and>
         successively (\<lambda>(a, b) (a', b'). a' = b - 200) ws \<and>
         list_all (\<lambda>(a, b). 0 \<le> a \<and> a < int (length t) \<and> a + 500 < b \<and> b \<le> a + 1001 \<and>
                        (int (length t) \<le> a + 1000 \<longrightarrow> b = a + 1000)) ws \<and>
         int (length t) + 200 \<le> snd (last ws)"
    by (rule chunk_loop_windows) (use ne in simp_all)
  then obtain ws where ws:
    "chunk_loop t 1000 200 0 [] =
       Some ([] @ filter (\<lambda>c. c \<noteq> []) (map (\<lambda>(a, b). trim (slice t a b)) ws))"
    "ws \<noteq> []" "fst (hd ws) = 0"
    "successively (\<lambda>(a, b) (a', b'). a' = b - 200) ws"
    "list_all (\<lambda>(a, b). 0 \<le> a \<and> a < int (length t) \<and> a + 500 < b \<and> b \<le> a + 1001 \<and>
                        (int (length t) \<le> a + 1000 \<longrightarrow> b = a + 1000)) ws"
    "int (length t) + 200 \<le> snd (last ws)"
    by blast
  from ws(2,3) obtain e ws' where w: "ws = (0, e) # ws'"
    by (cases ws) auto
  have e: "500 < e" "e \<le> 1001" "int (length t) \<le> 1000 \<longrightarrow> e = 1000"
    using ws(5) by (simp_all add: w)
  have ws': "ws' \<noteq> []"
  proof
    assume "ws' = []"
    with ws(6) w have "int (length t) + 200 \<le> e" by simp
    with e assms(2) show False by linarith
  qed
  obtain a b where lw: "last ws = (a, b)" by (cases "last ws")
  have "last ws \<in> set ws" using ws(2) by simp
  with ws(5) lw have ab: "0 \<le> a" "a < int (length t)"
    by (auto simp: list_all_iff)
  have b: "int (length t) \<le> b" using ws(6) lw by simp
  have first: "trim (slice t 0 e) \<noteq> []"
  proof -
    have "slice t 0 e = take (nat e) t"
      using e by (simp add: slice_nonneg min_def)
    moreover have "hd (take (nat e) t) = hd t"
      using e ne by (cases t; cases "nat e") simp_all
    moreover have "take (nat e) t \<noteq> []" using e ne by simp
    ultimately have "hd t \<in> set (slice t 0 e)"
      by (metis list.set_sel(1))
    with h show ?thesis by (auto simp: trim_empty_iff)
  qed
  have final: "trim (slice t a b) \<noteq> []"
  proof -
    have "nat a < length t" "length t \<le> nat b" "0 \<le> b"
      using ab b by linarith+
    then have "slice t a b = drop (nat a) t"
      using ab by (simp add: slice_nonneg min_def)
    moreover have "drop (nat a) t \<noteq> []" using ab by simp
    moreover have "last (drop (nat a) t) = last t" using ab by simp
    ultimately have "last t \<in> set (slice t a b)"
      by (metis last_in_set)
    with l show ?thesis by (auto simp: trim_empty_iff)
  qed
  have "2 \<le> length (filter (\<lambda>c. c \<noteq> []) (map (\<lambda>(a, b). trim (slice t a b)) ws))"
    by (rule filter_ends [OF w ws']) (simp_all add: first final lw)
  moreover have "list_all (\<lambda>(a, b). 0 \<le> a \<and> a < int (length t) \<and> a + 500 < b \<and> b \<le> a + 1001) ws"
    using ws(5) by (auto simp: list_all_iff)
  ultimately show ?thesis
    using ws(1,3,4) unfolding chunkText_def append_Nil by blast
qed

lemma no_space_single_spaced: "(\<And>c. c \<in> set s \<Longrightarrow> \<not> is_space c) \<Longrightarrow> single_spaced s"
  by (induction s rule: single_spaced.induct) auto

lemma page_match_head: "page_match s \<Longrightarrow> s \<noteq> [] \<and> to_upper (hd s) = CHR ''P''"
  by (cases s) (auto simp: page_match_def)

lemma to_upper_a: "to_upper CHR ''a'' = CHR ''A''"
  by code_simp

lemma letters_no_artifact: "no_artifact (replicate n CHR ''a'')"
proof -
  have p: "\<not> page_match (replicate m CHR ''a'')" for m
    using page_match_head [of "replicate m CHR ''a''"] by (cases m) (auto simp: to_upper_a)
  have c: "counter_rest (replicate m CHR ''a'') = None" for m
    by (cases m) (simp_all add: counter_rest_def is_digit_def)
  have t: "takeWhile caps_class (take 50 (replicate n CHR ''a'')) = []"
    by (cases n) (simp_all add: caps_class_def is_upper_def is_space_def)
  have "caps_match (replicate n CHR ''a'') = None"
    by (simp only: caps_match_def t list.size caps_try.simps)
  then show ?thesis
    by (simp add: no_artifact_def list_all_iff p c)
qed

lemma normalizeText_letters: "normalizeText (replicate n CHR ''a'') = replicate n CHR ''a''"
proof (rule normalizeText_is_fixed)
  show s: "single_spaced (replicate n CHR ''a'')"
    by (rule no_space_single_spaced) (auto simp: is_space_def)
  show "artifact_free (replicate n CHR ''a'')"
    using artifact_free_iff [OF s] letters_no_artifact by blast
  show "trim (replicate n CHR ''a'') = replicate n CHR ''a''"
    by (rule trim_no_space) (auto simp: is_space_def)
qed

lemma letters_plain: "plain_text (replicate n CHR ''a'')"
  by (simp add: plain_text_def list_all_iff is_space_def)

lemma letters_ascii: "ascii_text (replicate n CHR ''a'')"
  by (simp add: ascii_text_def list_all_iff)

lemma processDocument_ok:
  assumes "processDocument ex content filename = Some (ProcessOk chunks md)"
    and "detectFileType filename = Inr fileType"
    and "extract_text ex fileType content = Inr rawText"
  shows "chunkText (normalizeText rawText) 1000 200 = Some chunks \<and> normalizeText rawText \<noteq> []"
  using assms
  by (auto simp: processDocument_def Let_def split: if_splits option.splits)

lemma chunkText_windows:
  assumes "t \<noteq> []"
  shows "\<exists>ws. chunkText t 1000 200 =
           Some (filter (\<lambda>c. c \<noteq> []) (map (\<lambda>(a, b). trim (slice t a b)) ws)) \<and>
         ws \<noteq> [] \<and> fst (hd ws) = 0 \<and>
         successively (\<lambda>(a, b) (a', b'). a' = b - 200) ws \<and>
         list_all (\<lambda>(a, b). 0 \<le> a \<and> a < int (length t) \<and> a + 500 < b \<and> b \<le> a + 1001) ws"
proof -
  have "\<exists>ws. chunk_loop t 1000 200 0 [] =
           Some ([] @ filter (\<lambda>c. c \<noteq> []) (map (\<lambda>(a, b). trim (slice t a b)) ws)) \<and>
         ws \<noteq> [] \<and> fst (hd ws) = 0 \<and>
         successively (\<lambda>(a, b) (a', b'). a' = b - 200) ws \<and>
         list_all (\<lambda>(a, b). 0 \<le> a \<and> a < int (length t) \<and> a + 500 < b \<and> b \<le> a + 1001 \<and>
                        (int (length t) \<le> a + 1000 \<longrightarrow> b = a + 1000)) ws \<and>
         int (length t) + 200 \<le> snd (last ws)"
    by (rule chunk_loop_windows) (use assms in simp_all)
  then obtain ws where ws:
    "chunk_loop t 1000 200 0 [] =
       Some ([] @ filter (\<lambda>c. c \<noteq> []) (map (\<lambda>(a, b). trim (slice t a b)) ws))"
    "fst (hd ws) = 0"
    "ws \<noteq> []"
    "successively (\<lambda>(a, b) (a', b'). a' = b - 200) ws"
    "list_all (\<lambda>(a, b). 0 \<le> a \<and> a < int (length t) \<and> a + 500 < b \<and> b \<le> a + 1001 \<and>
                        (int (length t) \<le> a + 1000 \<longrightarrow> b = a + 1000)) ws"
    by blast
  have "list_all (\<lambda>(a, b). 0 \<le> a \<and> a < int (length t) \<and> a + 500 < b \<and> b \<le> a + 1001) ws"
    using ws(5) by (auto simp: list_all_iff)
  with ws(1,2,3,4) show ?thesis
    unfolding chunkText_def append_Nil by blast
qed

lemma chunkText_letters_2500:
  "chunkText (replicate 2500 CHR ''a'') 1000 200 =
     Some [replicate 1000 CHR ''a'', replicate 1000 CHR ''a'', replicate 900 CHR ''a'',
           replicate 100 CHR ''a'']"
  by (subst chunkText_plain_2500) (simp_all add: letters_plain)

lemma processDocument_letters_2500:
  "processDocument plain_extractors (replicate 2500 CHR ''a'') ''notes.txt'' =
     Some (ProcessOk [replicate 1000 CHR ''a'', replicate 1000 CHR ''a'',
                      replicate 900 CHR ''a'', replicate 100 CHR ''a'']
       \<lparr>totalChunks = 4, totalTokens = 750, totalCharacters = 2500,
        meta_filename = ''notes.txt''\<rparr>)"
proof -
  have t: "trim (replicate 2500 CHR ''a'') = replicate 2500 CHR ''a''"
    by (rule trim_no_space) (auto simp: is_space_def)
  show ?thesis
    by (simp add: processDocument_def detectFileType_notes normalizeText_letters t
        chunkText_letters_2500 extract_text_def plain_extractors_def estimateTokens_def)
qed

lemma embed_chunks_four:
  "embed_chunks (\<lambda>c. Inr v) [c0, c1, c2, c3] 0 [] = Inr [v, v, v, v]"
  by (simp add: embed_chunks.simps)

lemma upload_letters_example:
  "POST (demo_env 1536 (\<lambda>i. None) False) (letters_request 2500) empty_store =
     Some (UploadOk ''doc-1'' ''notes.txt'' 4,
       \<lparr>documents =
          [\<lparr>doc_id = ''doc-1'', doc_user_id = ''user-1'', doc_name = ''notes.txt'',
            doc_content =
              join [newline, newline]
                [replicate 1000 CHR ''a'', replicate 1000 CHR ''a'', replicate 900 CHR ''a'',
                 replicate 100 CHR ''a''],
            doc_chunk_count = Some 4\<rparr>],
        document_chunks =
          chunk_rows ''doc-1'' 0
            (map (\<lambda>c. (c, replicate 1536 (Fin 0)))
               [replicate 1000 CHR ''a'', replicate 1000 CHR ''a'', replicate 900 CHR ''a'',
                replicate 100 CHR ''a''])\<rparr>)"
  by (simp add: POST_def demo_env_def letters_request_def empty_store_def getFileType_notes
      processDocument_letters_2500 store_document_def embed_chunks_four insert_document_def
      Let_def insert_batches.simps)

subsection \<open>Refused chunk rows\<close>

lemma embed_batch_ok:
  "(\<And>c. c \<in> set cs \<Longrightarrow> \<exists>e. g c = Inr e) \<Longrightarrow> embed_batch g cs = Inr (map (\<lambda>c. projr (g c)) cs)"
proof (induction cs)
  case Nil
  show ?case by simp
next
  case (Cons c cs)
  from Cons.prems [of c] obtain e where e: "g c = Inr e" by auto
  have "embed_batch g cs = Inr (map (\<lambda>c. projr (g c)) cs)"
    by (rule Cons.IH) (use Cons.prems in simp)
  with e show ?case by simp
qed

lemma embed_chunks_ok:
  "(\<And>c. c \<in> set chunks \<Longrightarrow> \<exists>e. g c = Inr e) \<Longrightarrow>
   embed_chunks g chunks i acc = Inr (acc @ map (\<lambda>c. projr (g c)) (drop i chunks))"
proof (induction g chunks i acc rule: embed_chunks.induct)
  case (1 g chunks i embeddings)
  show ?case
  proof (cases "i < length chunks")
    case False
    then show ?thesis by (subst embed_chunks.simps) simp
  next
    case True
    have b: "embed_batch g (take 10 (drop i chunks)) =
        Inr (map (\<lambda>c. projr (g c)) (take 10 (drop i chunks)))"
      by (rule embed_batch_ok) (meson "1.prems" in_set_dropD in_set_takeD)
    have "embed_chunks g chunks (i + 10)
            (embeddings @ map (\<lambda>c. projr (g c)) (take 10 (drop i chunks))) =
          Inr ((embeddings @ map (\<lambda>c. projr (g c)) (take 10 (drop i chunks)))
                 @ map (\<lambda>c. projr (g c)) (drop (i + 10) chunks))"
      by (rule "1.IH" [OF True b]) (rule "1.prems")
    moreover have "take 10 (drop i chunks) @ drop (i + 10) chunks = drop i chunks"
      by (metis add.commute append_take_drop_id drop_drop)
    then have "map (\<lambda>c. projr (g c)) (take 10 (drop i chunks))
                 @ map (\<lambda>c. projr (g c)) (drop (i + 10) chunks)
               = map (\<lambda>c. projr (g c)) (drop i chunks)"
      by (metis map_append)
    ultimately show ?thesis
      using True b by (subst embed_chunks.simps) simp
  qed
qed

lemma check_dimensions_ok:
  "(\<And>e. e \<in> set es \<Longrightarrow> length e = 1536) \<Longrightarrow> check_dimensions i es = None"
  by (induction es arbitrary: i) simp_all

lemma chunk_rows_length: "length (chunk_rows document_id i rows) = length rows"
  by (induction document_id i rows rule: chunk_rows.induct) simp_all

lemma insert_batches_refused:
  assumes "i + 50 * m < length rows" and "chunk_batch_error env (i + 50 * m) \<noteq> None"
  shows "\<exists>b st2. insert_batches env rows i st = (Some b, st2)"
  using assms
proof (induction m arbitrary: i st)
  case 0
  then show ?case by (subst insert_batches.simps) auto
next
  case (Suc m)
  have i: "i < length rows" using Suc.prems(1) by simp
  show ?case
  proof (cases "chunk_batch_error env i")
    case (Some err)
    with i show ?thesis by (subst insert_batches.simps) simp
  next
    case None
    have "i + 50 + 50 * m < length rows" "chunk_batch_error env (i + 50 + 50 * m) \<noteq> None"
      using Suc.prems by (simp_all add: add.assoc)
    from Suc.IH [OF this] obtain b st2 where
      "insert_batches env rows (i + 50)
         (st\<lparr>document_chunks := document_chunks st @ take 50 (drop i rows)\<rparr>) = (Some b, st2)"
      by blast
    with i None show ?thesis by (subst insert_batches.simps) (simp add: Let_def)
  qed
qed

lemma processDocument_ok_size:
  assumes "processDocument ex content filename = Some (ProcessOk chunks md)"
  shows "\<not> length content > 10 * 1024 * 1024"
  using assms
  by (auto simp: processDocument_def Let_def split: sum.splits if_splits option.splits)

lemma chunk_loop_plain_count:
  assumes "plain_text s" "n < length s"
  shows "\<exists>cs. chunk_loop s 1000 200 (int n) acc = Some (acc @ cs) \<and>
           length cs = (length s - n + 799) div 800"
  using assms(2)
proof (induction "length s - n" arbitrary: n acc rule: less_induct)
  case less
  show ?case
  proof (cases "length s \<le> n + 800")
    case True
    have "(length s - n + 799) div 800 = 1"
      using True less.prems by simp
    with True show ?thesis
      by (subst chunk_loop_plain_step [OF assms(1) less.prems]) simp
  next
    case False
    then have m: "length s - (n + 800) < length s - n" and l: "n + 800 < length s"
      by simp_all
    from less.hyps [OF m l, of "acc @ [take 1000 (drop n s)]"] obtain cs where cs:
      "chunk_loop s 1000 200 (int (n + 800)) (acc @ [take 1000 (drop n s)]) =
         Some ((acc @ [take 1000 (drop n s)]) @ cs)"
      "length cs = (length s - (n + 800) + 799) div 800"
      by blast
    have "(length s - n + 799) div 800 = Suc ((length s - (n + 800) + 799) div 800)"
      using l by simp
    with cs False show ?thesis
      by (subst chunk_loop_plain_step [OF assms(1) less.prems])
         (intro exI [of _ "take 1000 (drop n s) # cs"], simp)
  qed
qed

lemma processDocument_letters:
  assumes "10 \<le> n" "n \<le> 10 * 1024 * 1024"
  shows "\<exists>chunks metadata.
           processDocument plain_extractors (replicate n CHR ''a'') ''notes.txt'' =
             Some (ProcessOk chunks metadata) \<and>
           length chunks = (n + 799) div 800"
proof -
  have "\<exists>cs. chunk_loop (replicate n CHR ''a'') 1000 200 (int 0) [] = Some ([] @ cs) \<and>
           length cs = (length (replicate n CHR ''a'') - 0 + 799) div 800"
    by (rule chunk_loop_plain_count) (use assms(1) in \<open>simp_all add: letters_plain\<close>)
  then obtain cs where cs: "chunkText (replicate n CHR ''a'') 1000 200 = Some cs"
    "length cs = (n + 799) div 800"
    by (auto simp: chunkText_def)
  have t: "trim (replicate n CHR ''a'') = replicate n CHR ''a''"
    by (rule trim_no_space) (auto simp: is_space_def)
  have "processDocument plain_extractors (replicate n CHR ''a'') ''notes.txt'' =
      Some (ProcessOk cs
        \<lparr>totalChunks = length cs, totalTokens = sum_list (map estimateTokens cs),
         totalCharacters = n, meta_filename = ''notes.txt''\<rparr>)"
    using assms
    by (simp add: processDocument_def detectFileType_notes normalizeText_letters t cs(1)
        extract_text_def plain_extractors_def)
  with cs(2) show ?thesis by blast
qed

text \<open>When the second batch is the first refused, the rows of the first are in the store.\<close>

lemma insert_batches_second_refused:
  assumes "50 < length rows" and "chunk_batch_error env 0 = None"
    and "chunk_batch_error env 50 = Some err"
  shows "insert_batches env rows 0 st =
    (Some (50, err), st\<lparr>document_chunks := document_chunks st @ take 50 rows\<rparr>)"
proof -
  have ne: "0 < length rows" using assms(1) by linarith
  have "insert_batches env rows 0 st =
      insert_batches env rows 50 (st\<lparr>document_chunks := document_chunks st @ take 50 rows\<rparr>)"
    using ne assms(2) by (subst insert_batches.simps) (simp add: Let_def)
  also have "\<dots> = (Some (50, err), st\<lparr>document_chunks := document_chunks st @ take 50 rows\<rparr>)"
    using assms(1,3) by (subst insert_batches.simps) (simp add: Let_def)
  finally show ?thesis .
qed

text \<open>
  C2 (as amended). Take an upload that gets as far as writing its chunk rows: the user is
  signed in and below the limit, the file is of an accepted type and its ASCII text is
  processed into chunks, every chunk is embedded with 1536 numbers, and the store accepts
  the document row. If the store refuses one of the batches of chunk rows, the first one
  or a later one, and carries out the two deletions that follow, the upload answers that
  the chunks could not be stored, and neither the document row nor any chunk row of the
  batches written before the refusal is left; when no row of the store had the
  identifier of the new document before, the store is as it was before the upload. The
  results of the deletions are not looked at: when the store does not carry them out, the
  rows remain.
\<close>

theorem chunk_failure_rolls_back:
  assumes "session_user_id request = Some user_id"
    and "fst (document_limit env user_id)"
    and "upload request = Some upl"
    and "getFileType (file_name upl) \<in> set [''pdf'', ''txt'', ''docx'']"
    and "detectFileType (file_name upl) = Inr fileType"
    and "extract_text (text_extractors env) fileType (file_content upl) = Inr rawText"
    and "ascii_text rawText"
    and "processDocument (text_extractors env) (file_content upl) (file_name upl) =
           Some (ProcessOk chunks metadata)"
    and "\<forall>c\<in>set chunks. \<exists>e. generateEmbedding env c = Inr e \<and> length e = 1536"
    and "fst (insert_document env user_id (file_name upl) chunks st) \<noteq> None"
    and "i < length chunks" and "50 dvd i" and "chunk_batch_error env i \<noteq> None"
    and "\<not> delete_document_fails env" and "\<not> delete_chunks_fails env"
  shows "\<exists>st'. POST env request st =
           Some (UploadFailed 500 ''CHUNKS_ERROR'' ''Failed to store document chunks'', st') \<and>
         (\<forall>d\<in>set (documents st'). doc_id d \<noteq> new_document_id env) \<and>
         (\<forall>c\<in>set (document_chunks st'). chunk_document_id c \<noteq> new_document_id env) \<and>
         ((\<forall>d\<in>set (documents st). doc_id d \<noteq> new_document_id env) \<and>
          (\<forall>c\<in>set (document_chunks st). chunk_document_id c \<noteq> new_document_id env) \<longrightarrow>
            st' = st)"
proof -
  define es where "es = map (\<lambda>c. projr (generateEmbedding env c)) chunks"
  have emb: "embed_chunks (generateEmbedding env) chunks 0 [] = Inr es"
    using embed_chunks_ok [of chunks "generateEmbedding env" 0 "[]"] assms(9)
    by (auto simp: es_def)
  have len: "length es = length chunks" by (simp add: es_def)
  have dims: "check_dimensions 0 es = None"
  proof (rule check_dimensions_ok)
    fix e assume "e \<in> set es"
    then obtain c where "c \<in> set chunks" "e = projr (generateEmbedding env c)"
      by (auto simp: es_def)
    with assms(9) show "length e = 1536" by fastforce
  qed
  obtain d st1 where ins: "insert_document env user_id (file_name upl) chunks st = (Some d, st1)"
    using assms(10) by (cases "insert_document env user_id (file_name upl) chunks st") auto
  define rows where "rows = chunk_rows (doc_id d) 0 (zip chunks es)"
  have "length rows = length chunks"
    by (simp add: rows_def chunk_rows_length len)
  moreover from assms(12) obtain m where "i = 0 + 50 * m" by (auto elim: dvdE)
  ultimately obtain b st2 where bat: "insert_batches env rows 0 st1 = (Some b, st2)"
    using insert_batches_refused [of 0 m rows env st1] assms(11,13) by auto
  obtain bi be where b: "b = (bi, be)" by (cases b)
  define st' where "st' = delete_chunks env (doc_id d) (delete_document env (doc_id d) st2)"
  have sd: "store_document env user_id (file_name upl) chunks st =
      (UploadFailed 500 ''CHUNKS_ERROR'' ''Failed to store document chunks'', st')"
    using emb len ins dims bat b
    by (simp add: store_document_def rows_def [symmetric] st'_def)
  have gone: "(\<forall>d\<in>set (documents st'). doc_id d \<noteq> new_document_id env) \<and>
      (\<forall>c\<in>set (document_chunks st'). chunk_document_id c \<noteq> new_document_id env)"
    using sd assms(14,15) by (rule store_document_rolled_back)
  have same: "(\<forall>d\<in>set (documents st). doc_id d \<noteq> new_document_id env) \<and>
      (\<forall>c\<in>set (document_chunks st). chunk_document_id c \<noteq> new_document_id env) \<longrightarrow>
        st' = st"
    using store_document_restored [OF sd assms(14,15)] by blast
  have "POST env request st = Some (store_document env user_id (file_name upl) chunks st)"
    using assms(1,2,3,4,8) processDocument_ok_size [OF assms(8)]
    by (cases "document_limit env user_id") (simp add: POST_def)
  then have "POST env request st =
      Some (UploadFailed 500 ''CHUNKS_ERROR'' ''Failed to store document chunks'', st')"
    by (simp only: sd)
  with gone same show ?thesis by blast
qed

text \<open>
  The instance: 40001 letters are cut into 51 chunks. The store writes the first batch,
  of 50 rows, and refuses the second; after the two deletions the store is the one the
  upload started from, with the earlier document and its chunk.
\<close>

theorem chunk_failure_rolls_back_witness:
  "POST refusing_env (letters_request 40001) prior_store =
     Some (UploadFailed 500 ''CHUNKS_ERROR'' ''Failed to store document chunks'', prior_store) \<and>
   (\<exists>chunks metadata.
      processDocument (text_extractors refusing_env) (replicate 40001 CHR ''a'') ''notes.txt'' =
        Some (ProcessOk chunks metadata) \<and> length chunks = 51) \<and>
   chunk_batch_error refusing_env 0 = None \<and>
   chunk_batch_error refusing_env 50 = Some ''timeout'' \<and>
   \<not> delete_document_fails refusing_env \<and> \<not> delete_chunks_fails refusing_env \<and>
   list_all (\<lambda>d. doc_id d \<noteq> new_document_id refusing_env) (documents prior_store) \<and>
   list_all (\<lambda>c. chunk_document_id c \<noteq> new_document_id refusing_env)
     (document_chunks prior_store)"
proof -
  have te: "text_extractors refusing_env = plain_extractors"
    by (simp add: refusing_env_def demo_env_def)
  from processDocument_letters [of 40001] obtain chunks metadata where p:
    "processDocument (text_extractors refusing_env) (replicate 40001 CHR ''a'') ''notes.txt'' =
       Some (ProcessOk chunks metadata)"
    and l: "length chunks = 51"
    by (auto simp: te)
  have h1: "session_user_id (letters_request 40001) = Some ''user-1''"
    and h3: "upload (letters_request 40001) =
      Some \<lparr>file_name = ''notes.txt'', file_content = replicate 40001 CHR ''a''\<rparr>"
    by (simp_all add: letters_request_def)
  have h2: "fst (document_limit refusing_env ''user-1'')"
    by (simp add: refusing_env_def demo_env_def)
  have h4: "getFileType (file_name \<lparr>file_name = ''notes.txt'',
      file_content = replicate 40001 CHR ''a''\<rparr>) \<in> set [''pdf'', ''txt'', ''docx'']"
    by (simp add: getFileType_notes)
  have h5: "detectFileType (file_name \<lparr>file_name = ''notes.txt'',
      file_content = replicate 40001 CHR ''a''\<rparr>) = Inr ''txt''"
    by (simp add: detectFileType_notes)
  have h6: "extract_text (text_extractors refusing_env) ''txt''
      (file_content \<lparr>file_name = ''notes.txt'', file_content = replicate 40001 CHR ''a''\<rparr>) =
      Inr (replicate 40001 CHR ''a'')"
    by (simp add: te extract_text_def plain_extractors_def)
  have h8: "processDocument (text_extractors refusing_env)
      (file_content \<lparr>file_name = ''notes.txt'', file_content = replicate 40001 CHR ''a''\<rparr>)
      (file_name \<lparr>file_name = ''notes.txt'', file_content = replicate 40001 CHR ''a''\<rparr>) =
      Some (ProcessOk chunks metadata)"
    using p by simp
  have h9: "\<forall>c\<in>set chunks. \<exists>e. generateEmbedding refusing_env c = Inr e \<and> length e = 1536"
    by (simp add: refusing_env_def demo_env_def)
  have h10: "fst (insert_document refusing_env ''user-1''
      (file_name \<lparr>file_name = ''notes.txt'', file_content = replicate 40001 CHR ''a''\<rparr>)
      chunks prior_store) \<noteq> None"
    by (simp add: insert_document_def refusing_env_def demo_env_def Let_def)
  have h11: "50 < length chunks" using l by simp
  have h12: "(50::nat) dvd 50" by simp
  have b0: "chunk_batch_error refusing_env 0 = None"
    and b50: "chunk_batch_error refusing_env 50 = Some ''timeout''"
    by (simp_all add: refusing_env_def demo_env_def)
  have h13: "chunk_batch_error refusing_env 50 \<noteq> None"
    by (simp add: b50)
  have h14: "\<not> delete_document_fails refusing_env" and h15: "\<not> delete_chunks_fails refusing_env"
    by (simp_all add: refusing_env_def demo_env_def)
  have h16: "\<forall>d\<in>set (documents prior_store). doc_id d \<noteq> new_document_id refusing_env"
    and h17: "\<forall>c\<in>set (document_chunks prior_store).
      chunk_document_id c \<noteq> new_document_id refusing_env"
    by (simp_all add: prior_store_def refusing_env_def demo_env_def)
  from chunk_failure_rolls_back [OF h1 h2 h3 h4 h5 h6 letters_ascii h8 h9 h10 h11 h12 h13 h14 h15]
    h16 h17
  have "POST refusing_env (letters_request 40001) prior_store =
     Some (UploadFailed 500 ''CHUNKS_ERROR'' ''Failed to store document chunks'', prior_store)"
    by blast
  moreover have "\<exists>chunks metadata.
      processDocument (text_extractors refusing_env) (replicate 40001 CHR ''a'') ''notes.txt'' =
        Some (ProcessOk chunks metadata) \<and> length chunks = 51"
    using p l by blast
  ultimately show ?thesis
    using b0 b50 h14 h15 h16 h17 by (simp add: list_all_iff)
qed

text \<open>
  C2 as stated fails: when the store refuses the deletions as it refused the chunk batch,
  the document row of the failed upload stays, without any chunk.
\<close>

theorem chunk_failure_orphan_counterexample:
  "POST (demo_env 1536 (\<lambda>i. Some ''timeout'') True) demo_request empty_store =
     Some (UploadFailed 500 ''CHUNKS_ERROR'' ''Failed to store document chunks'',
       \<lparr>documents =
          [\<lparr>doc_id = ''doc-1'', doc_user_id = ''user-1'', doc_name = ''notes.txt'',
            doc_content = ''Hello world. This is a test.'', doc_chunk_count = Some 1\<rparr>],
        document_chunks = []\<rparr>)"
  by (simp add: demo_simps)

subsection \<open>The stored content\<close>

text \<open>
  C10 (as amended). After a successful upload of ASCII text the store holds one more
  document row, whose content is the chunks of the normalized text, cut with size 1000
  and overlap 200, joined by two newlines. The chunks are the trimmed windows of the
  chunker, blank ones left out; the first window starts at 0 and every other window
  starts 200 characters before the end of the one before it, so what two consecutive
  windows share is in both. A normalized text of at most 800 characters is one chunk
  and the content is that text itself, with nothing stored twice; a longer one gives two
  chunks at least and a content that is not the normalized text.
\<close>

theorem upload_content_joined_chunks:
  assumes "POST env request st = Some (UploadOk document_id name chunk_count, st')"
    and "upload request = Some upl"
    and "detectFileType (file_name upl) = Inr fileType"
    and "extract_text (text_extractors env) fileType (file_content upl) = Inr rawText"
    and "ascii_text rawText"
  shows "\<exists>d chunks ws.
           documents st' = documents st @ [d] \<and> doc_id d = document_id \<and>
           chunkText (normalizeText rawText) 1000 200 = Some chunks \<and>
           doc_content d = join [newline, newline] chunks \<and> chunk_count = length chunks \<and>
           chunks = filter (\<lambda>c. c \<noteq> [])
                      (map (\<lambda>(a, b). trim (slice (normalizeText rawText) a b)) ws) \<and>
           ws \<noteq> [] \<and> fst (hd ws) = 0 \<and>
           successively (\<lambda>(a, b) (a', b'). a' = b - 200) ws \<and>
           list_all (\<lambda>(a, b). 0 \<le> a \<and> a < int (length (normalizeText rawText)) \<and>
                               a + 500 < b \<and> b \<le> a + 1001) ws \<and>
           (length (normalizeText rawText) \<le> 800 \<longrightarrow>
              chunks = [normalizeText rawText] \<and> doc_content d = normalizeText rawText) \<and>
           (800 < length (normalizeText rawText) \<longrightarrow>
              2 \<le> length chunks \<and> doc_content d \<noteq> normalizeText rawText)"
  using assms(1)
proof (cases rule: POST_cases)
  case (early status code message)
  then show ?thesis by simp
next
  case (processed user_id upl' chunks metadata)
  define t where "t = normalizeText rawText"
  from processed(2) assms(2) have u: "upl' = upl" by simp
  from processDocument_ok [OF processed(3) [unfolded u] assms(3,4)]
  have c: "chunkText t 1000 200 = Some chunks" and ne: "t \<noteq> []"
    by (simp_all add: t_def)
  have tr: "trim t = t" unfolding t_def by (rule normalizeText_trimmed)
  from store_document_ok [OF processed(4)] obtain d where d:
    "documents st' = documents st @ [d]" "doc_id d = document_id"
    "doc_content d = join [newline, newline] chunks" "chunk_count = length chunks"
    by blast
  from chunkText_windows [OF ne] c obtain ws where ws:
    "chunks = filter (\<lambda>c. c \<noteq> []) (map (\<lambda>(a, b). trim (slice t a b)) ws)"
    "ws \<noteq> []"
    "fst (hd ws) = 0" "successively (\<lambda>(a, b) (a', b'). a' = b - 200) ws"
    "list_all (\<lambda>(a, b). 0 \<le> a \<and> a < int (length t) \<and> a + 500 < b \<and> b \<le> a + 1001) ws"
    by auto
  have short: "length t \<le> 800 \<longrightarrow> chunks = [t] \<and> doc_content d = t"
  proof
    assume "length t \<le> 800"
    from chunkText_short [OF tr ne this] c have "chunks = [t]" by simp
    with d(3) show "chunks = [t] \<and> doc_content d = t" by simp
  qed
  have long: "800 < length t \<longrightarrow> 2 \<le> length chunks \<and> doc_content d \<noteq> t"
  proof
    assume "800 < length t"
    from chunkText_long [OF tr this] c have l: "2 \<le> length chunks" by auto
    then obtain x y ys where "chunks = x # y # ys"
      by (cases chunks; cases "tl chunks") auto
    with d(3) have "newline \<in> set (doc_content d)" by simp
    moreover have "newline \<notin> set t" unfolding t_def by (rule normalizeText_no_newline)
    ultimately have "doc_content d \<noteq> t" by auto
    with l show "2 \<le> length chunks \<and> doc_content d \<noteq> t" by simp
  qed
  show ?thesis
    using d c ws short long unfolding t_def by blast
qed

theorem upload_content_joined_chunks_witness:
  "\<exists>st'. POST (demo_env 1536 (\<lambda>i. None) False) (letters_request 2500) empty_store =
            Some (UploadOk ''doc-1'' ''notes.txt'' 4, st') \<and>
         upload (letters_request 2500) =
            Some \<lparr>file_name = ''notes.txt'', file_content = replicate 2500 CHR ''a''\<rparr> \<and>
         detectFileType ''notes.txt'' = Inr ''txt'' \<and>
         extract_text (text_extractors (demo_env 1536 (\<lambda>i. None) False)) ''txt''
            (replicate 2500 CHR ''a'') = Inr (replicate 2500 CHR ''a'') \<and>
         ascii_text (replicate 2500 CHR ''a'') \<and>
         (\<exists>d. documents st' = [d] \<and> length (doc_content d) = 3006 \<and>
              doc_content d \<noteq> normalizeText (replicate 2500 CHR ''a''))"
proof -
  have u: "upload (letters_request 2500) =
      Some \<lparr>file_name = ''notes.txt'', file_content = replicate 2500 CHR ''a''\<rparr>"
    by (simp add: letters_request_def)
  have e: "extract_text (text_extractors (demo_env 1536 (\<lambda>i. None) False)) ''txt''
      (replicate 2500 CHR ''a'') = Inr (replicate 2500 CHR ''a'')"
    by (simp add: extract_text_def demo_env_def plain_extractors_def)
  from upload_content_joined_chunks [OF upload_letters_example u, of "''txt''" "replicate 2500 CHR ''a''"]
    detectFileType_notes e letters_ascii [of 2500]
  obtain d chunks where d:
    "documents
       \<lparr>documents =
          [\<lparr>doc_id = ''doc-1'', doc_user_id = ''user-1'', doc_name = ''notes.txt'',
            doc_content =
              join [newline, newline]
                [replicate 1000 CHR ''a'', replicate 1000 CHR ''a'', replicate 900 CHR ''a'',
                 replicate 100 CHR ''a''],
            doc_chunk_count = Some 4\<rparr>],
        document_chunks =
          chunk_rows ''doc-1'' 0
            (map (\<lambda>c. (c, replicate 1536 (Fin 0)))
               [replicate 1000 CHR ''a'', replicate 1000 CHR ''a'', replicate 900 CHR ''a'',
                replicate 100 CHR ''a''])\<rparr> = documents empty_store @ [d]"
    "chunkText (normalizeText (replicate 2500 CHR ''a'')) 1000 200 = Some chunks"
    "doc_content d = join [newline, newline] chunks"
    "800 < length (normalizeText (replicate 2500 CHR ''a'')) \<longrightarrow>
       doc_content d \<noteq> normalizeText (replicate 2500 CHR ''a'')"
    by auto
  from d(2) have "chunks = [replicate 1000 CHR ''a'', replicate 1000 CHR ''a'',
      replicate 900 CHR ''a'', replicate 100 CHR ''a'']"
    by (simp add: normalizeText_letters chunkText_letters_2500)
  with d(3) have l: "length (doc_content d) = 3006" by simp
  from d(4) have n: "doc_content d \<noteq> normalizeText (replicate 2500 CHR ''a'')"
    by (simp add: normalizeText_letters)
  from d(1) have "documents
       \<lparr>documents =
          [\<lparr>doc_id = ''doc-1'', doc_user_id = ''user-1'', doc_name = ''notes.txt'',
            doc_content =
              join [newline, newline]
                [replicate 1000 CHR ''a'', replicate 1000 CHR ''a'', replicate 900 CHR ''a'',
                 replicate 100 CHR ''a''],
            doc_chunk_count = Some 4\<rparr>],
        document_chunks =
          chunk_rows ''doc-1'' 0
            (map (\<lambda>c. (c, replicate 1536 (Fin 0)))
               [replicate 1000 CHR ''a'', replicate 1000 CHR ''a'', replicate 900 CHR ''a'',
                replicate 100 CHR ''a''])\<rparr> = [d]"
    by (simp add: empty_store_def)
  with l n u e detectFileType_notes letters_ascii [of 2500] upload_letters_example
  show ?thesis by blast
qed

text \<open>
  C10 as stated fails: the short text of the first instance is one chunk, and the content
  of its document row is the normalized text itself; nothing is stored twice.
\<close>

theorem upload_content_is_text_counterexample:
  "POST (demo_env 1536 (\<lambda>i. None) False) demo_request empty_store =
     Some (UploadOk ''doc-1'' ''notes.txt'' 1,
       \<lparr>documents =
          [\<lparr>doc_id = ''doc-1'', doc_user_id = ''user-1'', doc_name = ''notes.txt'',
            doc_content = normalizeText ''Hello world. This is a test.'',
            doc_chunk_count = Some 1\<rparr>],
        document_chunks =
          [\<lparr>chunk_document_id = ''doc-1'',
            chunk_content = normalizeText ''Hello world. This is a test.'',
            chunk_embedding = replicate 1536 (Fin 0), chunk_index = 0,
            chunk_similarity = None\<rparr>]\<rparr>)"
  by (simp add: upload_stored_example normalizeText_hello_example)

text \<open>
  With more than one chunk the content is not the normalized text: what two chunks share
  is stored twice. For the 2500 characters of a text without boundaries the joined chunks
  have 3006 characters.
\<close>

lemma joined_chunks_repeat_overlap:
  assumes "length s = 2500" and "plain_text s"
  shows "\<exists>chunks. chunkText s 1000 200 = Some chunks \<and>
           length (join [newline, newline] chunks) = 3006"
  using chunkText_plain_2500 [OF assms] assms(1) by simp

section \<open>Properties of the context builder\<close>

lemma join_Cons:
  "join sep (x # xs) = x @ concat (map (\<lambda>y. sep @ y) xs)"
  by (induction xs arbitrary: x) simp_all

text \<open>
  C9 (as amended). For the empty sequence the context is the fixed sentence. Otherwise
  it is the blocks of the chunks in the order given, each but the first preceded by the
  separator of a blank line, three dashes and a blank line. A block is the label
  \<open>[Chunk n]\<close> with \<open>n\<close> the chunk index plus one, a newline and the content;
  the label holds the similarity, as \<open>[Chunk n (similarity: p%)]\<close>, only for a chunk
  whose similarity is present and neither zero nor NaN.
\<close>

theorem buildContext_blocks:
  "buildContext pct [] = ''No relevant context found.'' \<and>
   buildContext pct (c # cs) =
     chunk_block pct c @ concat (map (\<lambda>d. context_separator @ chunk_block pct d) cs) \<and>
   context_separator = [newline, newline] @ ''---'' @ [newline, newline] \<and>
   (\<forall>x. chunk_similarity c = Some x \<and> truthy x \<longrightarrow>
      chunk_block pct c =
        ''[Chunk '' @ show_int (chunk_index c + 1) @ '' (similarity: '' @ pct x @ ''%)]''
          @ [newline] @ chunk_content c) \<and>
   (chunk_similarity c = None \<or> (\<exists>x. chunk_similarity c = Some x \<and> \<not> truthy x) \<longrightarrow>
      chunk_block pct c =
        ''[Chunk '' @ show_int (chunk_index c + 1) @ '']'' @ [newline] @ chunk_content c)"
proof -
  have "buildContext pct [] = ''No relevant context found.''"
    by (simp add: buildContext_def)
  moreover have "buildContext pct (c # cs) =
      chunk_block pct c @ concat (map (\<lambda>d. context_separator @ chunk_block pct d) cs)"
    by (simp add: buildContext_def join_Cons comp_def)
  moreover have "context_separator = [newline, newline] @ ''---'' @ [newline, newline]"
    by (simp add: context_separator_def)
  moreover have "\<forall>x. chunk_similarity c = Some x \<and> truthy x \<longrightarrow>
      chunk_block pct c =
        ''[Chunk '' @ show_int (chunk_index c + 1) @ '' (similarity: '' @ pct x @ ''%)]''
          @ [newline] @ chunk_content c"
    by (simp add: chunk_block_def similarity_label_def)
  moreover have "chunk_similarity c = None \<or> (\<exists>x. chunk_similarity c = Some x \<and> \<not> truthy x) \<longrightarrow>
      chunk_block pct c =
        ''[Chunk '' @ show_int (chunk_index c + 1) @ '']'' @ [newline] @ chunk_content c"
    by (auto simp add: chunk_block_def similarity_label_def)
  ultimately show ?thesis by blast
qed

theorem buildContext_blocks_witness:
  "buildContext (\<lambda>x. ''87.5'')
     [\<lparr>chunk_document_id = ''doc-1'', chunk_content = ''Alpha'', chunk_embedding = [],
       chunk_index = 0, chunk_similarity = Some (Fin (7 / 8))\<rparr>,
      \<lparr>chunk_document_id = ''doc-1'', chunk_content = ''Beta'', chunk_embedding = [],
       chunk_index = 2, chunk_similarity = None\<rparr>] =
   ''[Chunk 1 (similarity: 87.5%)]'' @ [newline] @ ''Alpha'' @ [newline, newline] @ ''---''
     @ [newline, newline] @ ''[Chunk 3]'' @ [newline] @ ''Beta''"
  using buildContext_blocks [of "\<lambda>x. ''87.5''"
      "\<lparr>chunk_document_id = ''doc-1'', chunk_content = ''Alpha'', chunk_embedding = [],
        chunk_index = 0, chunk_similarity = Some (Fin (7 / 8))\<rparr>"
      "[\<lparr>chunk_document_id = ''doc-1'', chunk_content = ''Beta'', chunk_embedding = [],
         chunk_index = 2, chunk_similarity = None\<rparr>]"]
  by (simp add: chunk_block_def similarity_label_def show_int_def show_nat.simps)

text \<open>
  C9 as stated fails: a chunk whose similarity is 0, as the fallback search gives to a
  chunk without embedding, gets the label without the similarity.
\<close>

theorem buildContext_zero_similarity_counterexample:
  "buildContext (\<lambda>x. ''0.0'')
     [\<lparr>chunk_document_id = ''doc-1'', chunk_content = ''Alpha'', chunk_embedding = [],
       chunk_index = 0, chunk_similarity = Some (Fin 0)\<rparr>] =
   ''[Chunk 1]'' @ [newline] @ ''Alpha''"
  by (simp add: buildContext_def chunk_block_def similarity_label_def show_int_def
      show_nat.simps)

section \<open>Properties of the double arithmetic\<close>

lemma log2_up_pow: "log2_up (2 ^ n) = int n"
proof (induction n)
  case 0
  show ?case by (simp add: log2_up.simps)
next
  case (Suc n)
  have "(1::rat) \<le> 2 ^ n" by simp
  then have "(2::rat) \<le> 2 ^ Suc n" by simp
  then show ?case using Suc by (subst log2_up.simps) simp
qed


lemma to_double_zero: "to_double 0 = Fin 0"
  by (simp add: to_double_def)

lemma round_half_even_int: "round_half_even (of_int n) = n"
  by (simp add: round_half_even_def)

lemma to_double_one: "to_double 1 = Fin 1"
proof -
  have l: "ilog2 1 = 0"
    by (simp add: ilog2_def log2_up.simps)
  have a: "\<not> (1::rat) < pow2 (- 1022)"
    by (simp add: pow2_def)
  have b: "(1::rat) / pow2 (0 - 52) = of_int (2 ^ 52)"
    by (simp add: pow2_def)
  have y: "rat_of_int (2 ^ 52) * pow2 (0 - 52) = 1"
    by (simp add: pow2_def)
  have f: "\<not> pow2 1024 \<le> 1"
    by (simp add: pow2_def)
  show ?thesis
    by (simp only: to_double_def Let_def abs_one l a b round_half_even_int y f if_True if_False
        one_neq_zero zero_less_one)
qed

text \<open>The integer square root by bisection is the floor of the square root.\<close>

lemma isqrt_between_bounds:
  "0 \<le> lo \<Longrightarrow> lo < hi \<Longrightarrow> lo * lo \<le> n \<Longrightarrow> n < hi * hi \<Longrightarrow>
   isqrt_between lo hi n * isqrt_between lo hi n \<le> n \<and>
   n < (isqrt_between lo hi n + 1) * (isqrt_between lo hi n + 1) \<and> 0 \<le> isqrt_between lo hi n"
proof (induction lo hi n rule: isqrt_between.induct)
  case (1 lo hi n)
  show ?case
  proof (cases "hi \<le> lo + 1")
    case True
    with "1.prems" have "hi = lo + 1" by simp
    with True "1.prems" show ?thesis
      by (subst (1 2 3 4 5) isqrt_between.simps) simp
  next
    case False
    define mid where "mid = (lo + hi) div 2"
    have m: "lo < mid" "mid < hi" using False "1.prems" by (simp_all add: mid_def)
    show ?thesis
    proof (cases "mid * mid \<le> n")
      case True
      have "isqrt_between lo hi n = isqrt_between mid hi n"
        using False True by (subst isqrt_between.simps) (simp add: mid_def Let_def)
      moreover have "isqrt_between mid hi n * isqrt_between mid hi n \<le> n \<and>
        n < (isqrt_between mid hi n + 1) * (isqrt_between mid hi n + 1) \<and> 0 \<le> isqrt_between mid hi n"
        using "1.IH"(1) [OF False mid_def [symmetric, THEN sym] ] True m "1.prems"
        by (simp add: mid_def)
      ultimately show ?thesis by simp
    next
      case nle: False
      have "isqrt_between lo hi n = isqrt_between lo mid n"
        using False nle by (subst isqrt_between.simps) (simp add: mid_def Let_def)
      moreover have "isqrt_between lo mid n * isqrt_between lo mid n \<le> n \<and>
        n < (isqrt_between lo mid n + 1) * (isqrt_between lo mid n + 1) \<and> 0 \<le> isqrt_between lo mid n"
        using "1.IH"(2) [OF False mid_def [symmetric, THEN sym] ] nle m "1.prems"
        by (simp add: mid_def)
      ultimately show ?thesis by simp
    qed
  qed
qed

lemma isqrt_square:
  assumes "0 \<le> m"
  shows "isqrt (m * m) = m"
proof -
  define r where "r = isqrt (m * m)"
  have "(0::int) \<le> 0" "(0::int) < m * m + 1" "(0::int) * 0 \<le> m * m" "m * m < (m * m + 1) * (m * m + 1)"
  proof -
    have "0 \<le> m * m" by simp
    then show "(0::int) < m * m + 1" by linarith
    have "m * m + 1 \<le> (m * m + 1) * (m * m + 1)"
      using \<open>0 \<le> m * m\<close> by (intro mult_le_cancel_left1 [THEN iffD2]) auto
    then show "m * m < (m * m + 1) * (m * m + 1)" by linarith
  qed simp_all
  from isqrt_between_bounds [OF this]
  have b: "r * r \<le> m * m" "m * m < (r + 1) * (r + 1)" "0 \<le> r"
    by (simp_all add: r_def isqrt_def)
  have "r \<le> m"
  proof (rule ccontr)
    assume "\<not> r \<le> m"
    then have "m + 1 \<le> r" by simp
    then have "(m + 1) * (m + 1) \<le> r * r" using assms by (intro mult_mono) auto
    moreover have "(m + 1) * (m + 1) = m * m + 2 * m + 1" by (simp add: algebra_simps)
    ultimately show False using b(1) assms by linarith
  qed
  moreover have "m \<le> r"
  proof (rule ccontr)
    assume "\<not> m \<le> r"
    then have "r + 1 \<le> m" by simp
    then have "(r + 1) * (r + 1) \<le> m * m" using b(3) by (intro mult_mono) auto
    with b(2) show False by linarith
  qed
  ultimately show ?thesis by (simp add: r_def)
qed

lemma sqrt_double_one: "sqrt_double 1 = Fin 1"
proof -
  have l: "ilog2 1 = 0"
    by (simp add: ilog2_def log2_up.simps)
  have q: "pow2 (0 div 2 - 52) = 1 / 2 ^ 52"
    by (simp add: pow2_def)
  have t: "(1::rat) / (1 / 2 ^ 52 * (1 / 2 ^ 52)) = of_int (2 ^ 52 * 2 ^ 52)"
    by simp
  have i: "isqrt (2 ^ 52 * 2 ^ 52) = 2 ^ 52"
    by (rule isqrt_square) simp
  have h: "rat_of_int (2 ^ 52 * 2 ^ 52) < (rat_of_int (2 ^ 52) + 1 / 2) * (rat_of_int (2 ^ 52) + 1 / 2)"
    by simp
  have y: "rat_of_int (2 ^ 52) * (1 / 2 ^ 52) = 1"
    by simp
  show ?thesis
    by (simp only: sqrt_double_def Let_def l q t floor_of_int i h if_True y)
qed



lemma to_double_overflow: "to_double (2 ^ 1200) = PInf"
proof -
  have a: "\<not> (2::rat) ^ 1200 < pow2 (- 1022)"
    by (simp add: pow2_def)
  have l: "ilog2 (2 ^ 1200) = 1200"
    using log2_up_pow [of 1200] by (simp add: ilog2_def)
  have b: "(2::rat) ^ 1200 / pow2 (1200 - 52) = of_int (2 ^ 52)"
    by (simp add: pow2_def)
  have y: "rat_of_int (2 ^ 52) * pow2 (1200 - 52) = 2 ^ 1200"
    by (simp add: pow2_def)
  have d: "\<bar>(2::rat) ^ 1200\<bar> = 2 ^ 1200"
    by simp
  have e: "(2::rat) ^ 1200 \<noteq> 0" "(0::rat) < 2 ^ 1200"
    by simp_all
  have f: "pow2 1024 \<le> 2 ^ 1200"
    by (simp add: pow2_def)
  show ?thesis
    by (simp only: to_double_def Let_def d l a b round_half_even_int y e f if_True if_False)
qed

subsection \<open>Exponents and rounding\<close>

lemma pow2_powi: "pow2 e = 2 powi e"
  by (simp add: pow2_def power_int_def field_simps)

lemma pow2_pos: "0 < pow2 e"
  by (simp add: pow2_powi zero_less_power_int)

lemma pow2_add: "pow2 (a + b) = pow2 a * pow2 b"
  by (simp add: pow2_powi power_int_add)

lemma pow2_mono: "a \<le> b \<Longrightarrow> pow2 a \<le> pow2 b"
  by (simp add: pow2_powi power_int_increasing)


lemma pow2_nat: "pow2 (int n) = 2 ^ n"
  by (simp add: pow2_def)

lemma pow2_neg: "pow2 (- int n) = 1 / 2 ^ n"
  by (simp add: pow2_powi power_int_minus field_simps)

lemma log2_up_bounds:
  "1 \<le> x \<Longrightarrow> pow2 (log2_up x) \<le> x \<and> x < pow2 (log2_up x + 1)"
proof (induction x rule: log2_up.induct)
  case (1 x)
  show ?case
  proof (cases "2 \<le> x")
    case True
    then have "1 \<le> x / 2" by simp
    from "1.IH" [OF True this] have "pow2 (log2_up (x / 2)) \<le> x / 2"
      "x / 2 < pow2 (log2_up (x / 2) + 1)"
      by simp_all
    then have "pow2 (log2_up (x / 2)) * pow2 1 \<le> x" "x < pow2 (log2_up (x / 2) + 1) * pow2 1"
      by (simp_all add: pow2_def)
    then have "pow2 (log2_up (x / 2) + 1) \<le> x" "x < pow2 (log2_up (x / 2) + 1 + 1)"
      by (simp_all only: pow2_add)
    moreover have "log2_up x = log2_up (x / 2) + 1"
      using True by (subst log2_up.simps) simp
    ultimately show ?thesis by simp
  next
    case False
    then have "log2_up x = 0" by (subst log2_up.simps) simp
    with False "1.prems" show ?thesis by (simp add: pow2_def)
  qed
qed

lemma log2_down_bounds:
  "0 < x \<Longrightarrow> x < 1 \<Longrightarrow> pow2 (log2_down x) \<le> x \<and> x < pow2 (log2_down x + 1)"
proof (induction x rule: log2_down.induct)
  case (1 x)
  have l: "log2_down x = log2_down (2 * x) - 1"
    using "1.prems" by (subst log2_down.simps) simp
  show ?case
  proof (cases "2 * x < 1")
    case True
    have "0 < 2 * x" using "1.prems" by simp
    from "1.IH" [OF _ this True] "1.prems"
    have b: "pow2 (log2_down (2 * x)) \<le> 2 * x" "2 * x < pow2 (log2_down (2 * x) + 1)"
      by simp_all
    have "pow2 (log2_down (2 * x)) = pow2 (log2_down (2 * x) - 1) * pow2 1"
      by (simp only: pow2_add [symmetric]) simp
    moreover have "pow2 (log2_down (2 * x) + 1) = pow2 (log2_down (2 * x) - 1 + 1) * pow2 1"
      by (simp only: pow2_add [symmetric]) simp
    ultimately have "pow2 (log2_down (2 * x) - 1) \<le> x" "x < pow2 (log2_down (2 * x) - 1 + 1)"
      using b by (simp_all add: pow2_def [of 1])
    then show ?thesis by (simp only: l)
  next
    case False
    then have "log2_down (2 * x) = 0" by (subst log2_down.simps) simp
    with l have "log2_down x = - 1" by simp
    with False "1.prems" show ?thesis by (simp add: pow2_def)
  qed
qed

lemma ilog2_bounds:
  assumes "0 < x"
  shows "pow2 (ilog2 x) \<le> x \<and> x < pow2 (ilog2 x + 1)"
proof (cases "1 \<le> x")
  case True
  with log2_up_bounds [OF True] show ?thesis by (simp add: ilog2_def)
next
  case False
  with log2_down_bounds [OF assms] show ?thesis by (simp add: ilog2_def)
qed

lemma ilog2_le:
  assumes "0 < x" "x < pow2 k"
  shows "ilog2 x < k"
proof (rule ccontr)
  assume "\<not> ilog2 x < k"
  then have "pow2 k \<le> pow2 (ilog2 x)" by (intro pow2_mono) simp
  with ilog2_bounds [OF assms(1)] assms(2) show False by linarith
qed

lemma ilog2_ge:
  assumes "0 < x" "pow2 k \<le> x"
  shows "k \<le> ilog2 x"
proof (rule ccontr)
  assume "\<not> k \<le> ilog2 x"
  then have "pow2 (ilog2 x + 1) \<le> pow2 k" by (intro pow2_mono) simp
  with ilog2_bounds [OF assms(1)] assms(2) show False by linarith
qed


lemma pow2_zero: "pow2 0 = 1"
  by (simp add: pow2_def)

lemma pow2_divide: "x / pow2 e = x * pow2 (- e)"
proof -
  have "pow2 e * pow2 (- e) = 1"
    by (simp only: pow2_add [symmetric]) (simp add: pow2_zero)
  then show ?thesis
    using pow2_pos [of e] by (simp add: field_simps)
qed

text \<open>Whole numbers below \<open>2 ^ 53\<close> are doubles.\<close>

lemma to_double_int:
  assumes "\<bar>n\<bar> < 2 ^ 53"
  shows "to_double (of_int n) = Fin (of_int n)"
proof (cases "n = 0")
  case True
  then show ?thesis by (simp add: to_double_zero)
next
  case False
  define v :: rat where "v = \<bar>of_int n\<bar>"
  define e where "e = ilog2 v"
  have v: "v = of_int \<bar>n\<bar>" by (simp add: v_def)
  have v1: "1 \<le> v" using False by (simp add: v)
  have v53: "v < pow2 53"
  proof -
    have "rat_of_int \<bar>n\<bar> < rat_of_int (2 ^ 53)"
      using assms by (simp only: of_int_less_iff)
    then show ?thesis by (simp add: v pow2_def)
  qed
  have e0: "0 \<le> e" unfolding e_def using v1 by (intro ilog2_ge) (simp_all add: pow2_zero)
  have e53: "e < 53" unfolding e_def using v1 v53 by (intro ilog2_le) simp_all
  have small: "\<not> v < pow2 (- 1022)"
  proof -
    have "pow2 (- 1022) \<le> pow2 0" by (rule pow2_mono) simp
    with v1 show ?thesis by (simp add: pow2_zero)
  qed
  have q: "pow2 (- (e - 52)) = of_int (2 ^ nat (52 - e))"
    using e53 by (simp add: pow2_def)
  have d: "v / pow2 (e - 52) = of_int (\<bar>n\<bar> * 2 ^ nat (52 - e))"
    by (simp only: pow2_divide q v of_int_mult)
  have y: "of_int (\<bar>n\<bar> * 2 ^ nat (52 - e)) * pow2 (e - 52) = v"
  proof -
    have "pow2 (- (e - 52)) * pow2 (e - 52) = 1"
      by (simp only: pow2_add [symmetric]) (simp add: pow2_zero)
    then show ?thesis
      by (simp only: of_int_mult q [symmetric] v [symmetric] mult.assoc)
  qed
  have big: "\<not> pow2 1024 \<le> v"
  proof -
    have "pow2 53 \<le> pow2 1024" by (rule pow2_mono) simp
    with v53 show ?thesis by simp
  qed
  have nz: "rat_of_int n \<noteq> 0" using False by simp
  have "to_double (of_int n) = Fin (if 0 < rat_of_int n then v else - v)"
    by (simp only: to_double_def Let_def nz if_False v_def [symmetric] small e_def [symmetric] d
        round_half_even_int y big)
  also have "(if 0 < rat_of_int n then v else - v) = of_int n"
    by (simp add: v_def)
  finally show ?thesis .
qed






section \<open>Properties of the retriever\<close>

subsection \<open>Similarity\<close>



lemma fmul_zero_left: "zeroish (fmul (Fin 0) y)"
  by (cases y) (simp_all add: zeroish_def to_double_zero)

lemma fmul_zeroish_left: "zeroish x \<Longrightarrow> zeroish (fmul x y)"
  using fmul_zero_left [of y] by (auto simp: zeroish_def)










lemma cosine_overflow_example: "cosine_similarity [Fin (2 ^ 600)] [Fin (2 ^ 600)] = Fin 0"
proof -
  have sq: "(2::rat) ^ 600 * 2 ^ 600 = 2 ^ 1200"
    by simp
  have dot: "dot_product (Fin 0) [Fin (2 ^ 600)] [Fin (2 ^ 600)] = PInf"
    by (simp add: sq to_double_overflow del: power_numeral)
  have qm: "magnitude [Fin (2 ^ 600)] = PInf"
    by (simp add: magnitude_def sq to_double_overflow del: power_numeral)
  have r: "fdiv PInf (fmul PInf PInf) = NaN"
    by simp
  show ?thesis
    by (simp only: cosine_similarity_def Let_def dot qm r isNaN_def) simp
qed

lemma cosine_orthogonal_example: "cosine_similarity [Fin 1, Fin 0] [Fin 0, Fin 1] = Fin 0"
proof -
  have dot: "dot_product (Fin 0) [Fin 1, Fin 0] [Fin 0, Fin 1] = Fin 0"
    by (simp add: to_double_zero)
  have qm: "magnitude [Fin 1, Fin 0] = Fin 1"
    by (simp add: magnitude_def to_double_zero to_double_one sqrt_double_one)
  have cm: "magnitude [Fin 0, Fin 1] = Fin 1"
    by (simp add: magnitude_def to_double_zero to_double_one sqrt_double_one)
  have r: "fdiv (Fin 0) (fmul (Fin 1) (Fin 1)) = Fin 0"
    by (simp add: to_double_zero to_double_one)
  show ?thesis
    by (simp only: cosine_similarity_def Let_def dot qm cm r isNaN_def) simp
qed

lemma cosine_identical_example: "cosine_similarity [Fin 1, Fin 0] [Fin 1, Fin 0] = Fin 1"
proof -
  have dot: "dot_product (Fin 0) [Fin 1, Fin 0] [Fin 1, Fin 0] = Fin 1"
    by (simp add: to_double_zero to_double_one)
  have qm: "magnitude [Fin 1, Fin 0] = Fin 1"
    by (simp add: magnitude_def to_double_zero to_double_one sqrt_double_one)
  have r: "fdiv (Fin 1) (fmul (Fin 1) (Fin 1)) = Fin 1"
    by (simp add: to_double_one)
  show ?thesis
    by (simp only: cosine_similarity_def Let_def dot qm r isNaN_def) simp
qed







lemma to_double_neg_numeral:
  "(numeral n :: int) < 2 ^ 53 \<Longrightarrow> to_double (- numeral n) = Fin (- numeral n)"
  using to_double_int [of "- numeral n"] by simp











subsection \<open>Failures of the store\<close>

lemma findRelevantChunks_fallback_example:
  "findRelevantChunks fallback_env demo_chunks [Fin 1, Fin 0] ''doc-1'' 5 =
   Resolved
     [\<lparr>chunk_document_id = ''doc-1'', chunk_content = ''Beta'',
       chunk_embedding = [Fin 1, Fin 0], chunk_index = 1, chunk_similarity = Some (Fin 1)\<rparr>,
      \<lparr>chunk_document_id = ''doc-1'', chunk_content = ''Alpha'',
       chunk_embedding = [Fin 0, Fin 1], chunk_index = 0, chunk_similarity = Some (Fin 0)\<rparr>]"
  by (simp add: findRelevantChunks_def fallback_env_def demo_chunks_def select_chunks_def
      with_similarity_def cosine_orthogonal_example cosine_identical_example
      sort_by_similarity_def sort_key_of_def Let_def)

lemma findRelevantChunks_no_chunks_example:
  "findRelevantChunks fallback_env demo_chunks [Fin 1, Fin 0] ''doc-2'' 5 = Resolved []"
  by (simp add: findRelevantChunks_def fallback_env_def demo_chunks_def select_chunks_def)

text \<open>
  C3 (as amended). The retriever never rejects: every call resolves with a sequence of
  chunks. When the client of the store cannot be made, or the similarity search gives no
  data and the query for the chunks of the document fails, it resolves with the empty
  sequence, the value it also gives for a document without chunks.
\<close>

theorem findRelevantChunks_never_rejects:
  "(\<exists>rows. findRelevantChunks env st q d limit = Resolved rows) \<and>
   (client_throws env \<or>
    (rpc_data (match_document_chunks env q d limit) = None \<and> fetch_fails env) \<longrightarrow>
      findRelevantChunks env st q d limit = Resolved [])"
  by (auto simp: findRelevantChunks_def Let_def split: option.splits)

theorem findRelevantChunks_never_rejects_witness:
  "rpc_data (match_document_chunks unreachable_env [Fin 1, Fin 0] ''doc-1'' 5) = None \<and>
   fetch_fails unreachable_env \<and>
   findRelevantChunks unreachable_env demo_chunks [Fin 1, Fin 0] ''doc-1'' 5 =
     findRelevantChunks fallback_env demo_chunks [Fin 1, Fin 0] ''doc-2'' 5"
proof -
  have r: "rpc_data (match_document_chunks unreachable_env [Fin 1, Fin 0] ''doc-1'' 5) = None"
    and f: "fetch_fails unreachable_env"
    by (simp_all add: unreachable_env_def)
  from findRelevantChunks_never_rejects [of unreachable_env demo_chunks "[Fin 1, Fin 0]" "''doc-1''" 5]
  show ?thesis
    using r f findRelevantChunks_no_chunks_example by simp
qed

text \<open>
  C3 as stated fails: with the store out of reach the retriever resolves with the empty
  sequence, although the document has chunks; no error reaches the caller.
\<close>

theorem findRelevantChunks_unreachable_counterexample:
  "findRelevantChunks unreachable_env demo_chunks [Fin 1, Fin 0] ''doc-1'' 5 = Resolved []"
  by (simp add: findRelevantChunks_def unreachable_env_def)

end
